theory Spec2Isabelle
  imports Main "HOL-Library.Sublist" "HOL-Library.AList"
begin

section \<open>The file system\<close>

text \<open>
  A path is the list of its components, absolute and in normal form: \<open>[]\<close> is the
  root directory, \<open>[''home'', ''me'']\<close> is \<^verbatim>\<open>/home/me\<close>.  A file holds its bytes, a
  directory holds its entries by name.  Symbolic links, devices and permissions are not
  modelled.  A text (a string of the program) is written as its UTF-8 encoding, which is
  what \<^verbatim>\<open>writeFile(p, str, {encoding: 'utf8'})\<close> stores.
\<close>

type_synonym path = "string list"

datatype node = File string | Dir "(string \<times> node) list"

datatype errno = ENOENT | ENOTDIR | EEXIST | EISDIR | EBUSY

fun lookup :: "node \<Rightarrow> path \<Rightarrow> node option" where
  "lookup n [] = Some n"
| "lookup (File c) (x # xs) = None"
| "lookup (Dir es) (x # xs) = (case map_of es x of None \<Rightarrow> None | Some c \<Rightarrow> lookup c xs)"

text \<open>\<^verbatim>\<open>fs.stat\<close>: the node at the path, or the error of a path that does not resolve.\<close>

definition stat :: "node \<Rightarrow> path \<Rightarrow> errno + node" where
  "stat fs p = (case lookup fs p of None \<Rightarrow> Inl ENOENT | Some n \<Rightarrow> Inr n)"

fun isDirectory :: "node \<Rightarrow> bool" where
  "isDirectory (Dir es) = True"
| "isDirectory (File c) = False"

text \<open>
  \<^verbatim>\<open>mkdirp\<close>: creates the directory and every missing ancestor.  It fails, creating
  nothing, when the path or one of its ancestors is a file.
\<close>

fun mkdirp :: "node \<Rightarrow> path \<Rightarrow> errno + node" where
  "mkdirp (Dir es) [] = Inr (Dir es)"
| "mkdirp (File c) [] = Inl EEXIST"
| "mkdirp (File c) (x # xs) = Inl ENOTDIR"
| "mkdirp (Dir es) (x # xs) =
     (case mkdirp (case map_of es x of None \<Rightarrow> Dir [] | Some c \<Rightarrow> c) xs of
        Inl e \<Rightarrow> Inl e
      | Inr c' \<Rightarrow> Inr (Dir (AList.update x c' es)))"

text \<open>
  \<^verbatim>\<open>rimraf\<close>: removes the node at the path with everything below it.  A path that does
  not exist is no error; a path through a file is (\<^verbatim>\<open>ENOTDIR\<close> from \<^verbatim>\<open>unlink\<close>); the root
  loses its entries and cannot be removed itself.  The state is returned in both cases.
\<close>

fun rimraf :: "node \<Rightarrow> path \<Rightarrow> node \<times> errno option" where
  "rimraf (Dir es) [] = (Dir [], Some EBUSY)"
| "rimraf (File c) [] = (File c, Some EBUSY)"
| "rimraf (File c) (x # xs) = (File c, Some ENOTDIR)"
| "rimraf (Dir es) [x] = (Dir (AList.delete x es), None)"
| "rimraf (Dir es) (x # y # ys) =
     (case map_of es x of
        None \<Rightarrow> (Dir es, None)
      | Some c \<Rightarrow> (case rimraf c (y # ys) of (c', e) \<Rightarrow> (Dir (AList.update x c' es), e)))"

datatype flag = W | WX

text \<open>
  \<^verbatim>\<open>fs.writeFile\<close> with flag \<^verbatim>\<open>'w'\<close> (create or truncate) or \<^verbatim>\<open>'wx'\<close> (create, fail with
  \<^verbatim>\<open>EEXIST\<close> when the path exists).
\<close>

fun writeFile :: "node \<Rightarrow> path \<Rightarrow> string \<Rightarrow> flag \<Rightarrow> errno + node" where
  "writeFile (File c) [] s W = Inr (File s)"
| "writeFile (File c) [] s WX = Inl EEXIST"
| "writeFile (Dir es) [] s W = Inl EISDIR"
| "writeFile (Dir es) [] s WX = Inl EEXIST"
| "writeFile (File c) (x # xs) s fl = Inl ENOTDIR"
| "writeFile (Dir es) (x # xs) s fl =
     (case map_of es x of
        None \<Rightarrow> (if xs = [] then Inr (Dir (AList.update x (File s) es)) else Inl ENOENT)
      | Some c \<Rightarrow>
          (case writeFile c xs s fl of
             Inl e \<Rightarrow> Inl e
           | Inr c' \<Rightarrow> Inr (Dir (AList.update x c' es))))"

definition byte :: "char \<Rightarrow> nat" where
  "byte c = of_char c"

definition between :: "char \<Rightarrow> nat \<Rightarrow> nat \<Rightarrow> bool" where
  "between c lo hi = (lo \<le> byte c \<and> byte c \<le> hi)"

definition replacement :: string where
  "replacement = [CHR 0xEF, CHR 0xBF, CHR 0xBD]"

definition lower_bound :: "char \<Rightarrow> nat" where
  "lower_bound b = (if byte b = 0xE0 then 0xA0 else if byte b = 0xF0 then 0x90 else 0x80)"

definition upper_bound :: "char \<Rightarrow> nat" where
  "upper_bound b = (if byte b = 0xED then 0x9F else if byte b = 0xF4 then 0x8F else 0xBF)"

text \<open>
  The text that decoding bytes as UTF-8 gives, as the encoding \<^verbatim>\<open>'utf8'\<close> of \<^verbatim>\<open>readFile\<close>
  does: a well-formed sequence is kept, and a byte, or the begun sequence, that is not
  well-formed becomes the replacement character U+FFFD, after which decoding goes on
  with the byte that broke the sequence.
\<close>

fun utf8 :: "string \<Rightarrow> string" where
  "utf8 [] = []"
| "utf8 (b # bs) =
     (if byte b < 0x80 then b # utf8 bs
      else if between b 0xC2 0xDF then
        (case bs of
           [] \<Rightarrow> replacement
         | c # rest \<Rightarrow>
             if between c 0x80 0xBF then b # c # utf8 rest else replacement @ utf8 bs)
      else if between b 0xE0 0xEF then
        (case bs of
           [] \<Rightarrow> replacement
         | c # rest \<Rightarrow>
             if between c (lower_bound b) (upper_bound b) then
               (case rest of
                  [] \<Rightarrow> replacement
                | d # rest' \<Rightarrow>
                    if between d 0x80 0xBF then b # c # d # utf8 rest'
                    else replacement @ utf8 rest)
             else replacement @ utf8 bs)
      else if between b 0xF0 0xF4 then
        (case bs of
           [] \<Rightarrow> replacement
         | c # rest \<Rightarrow>
             if between c (lower_bound b) (upper_bound b) then
               (case rest of
                  [] \<Rightarrow> replacement
                | d # rest' \<Rightarrow>
                    if between d 0x80 0xBF then
                      (case rest' of
                         [] \<Rightarrow> replacement
                       | e # rest'' \<Rightarrow>
                           if between e 0x80 0xBF then b # c # d # e # utf8 rest''
                           else replacement @ utf8 rest')
                    else replacement @ utf8 rest)
             else replacement @ utf8 bs)
      else replacement @ utf8 bs)"

text \<open>
  Well-formed UTF-8, as the Unicode Standard defines it (Table 3-7, well-formed UTF-8
  byte sequences): a string of bytes is well-formed when it is a sequence of encoded
  characters, each taken from one row of the table.  This is the yardstick for \<open>utf8\<close>
  above and is not used by the program.
\<close>

inductive well_formed :: "string \<Rightarrow> bool" where
  empty: "well_formed []"
| row_00_7F: "byte b \<le> 0x7F \<Longrightarrow> well_formed bs \<Longrightarrow> well_formed (b # bs)"
| row_C2_DF: "between b 0xC2 0xDF \<Longrightarrow> between c 0x80 0xBF \<Longrightarrow> well_formed bs \<Longrightarrow>
    well_formed (b # c # bs)"
| row_E0: "byte b = 0xE0 \<Longrightarrow> between c 0xA0 0xBF \<Longrightarrow> between d 0x80 0xBF \<Longrightarrow>
    well_formed bs \<Longrightarrow> well_formed (b # c # d # bs)"
| row_E1_EC: "between b 0xE1 0xEC \<Longrightarrow> between c 0x80 0xBF \<Longrightarrow> between d 0x80 0xBF \<Longrightarrow>
    well_formed bs \<Longrightarrow> well_formed (b # c # d # bs)"
| row_ED: "byte b = 0xED \<Longrightarrow> between c 0x80 0x9F \<Longrightarrow> between d 0x80 0xBF \<Longrightarrow>
    well_formed bs \<Longrightarrow> well_formed (b # c # d # bs)"
| row_EE_EF: "between b 0xEE 0xEF \<Longrightarrow> between c 0x80 0xBF \<Longrightarrow> between d 0x80 0xBF \<Longrightarrow>
    well_formed bs \<Longrightarrow> well_formed (b # c # d # bs)"
| row_F0: "byte b = 0xF0 \<Longrightarrow> between c 0x90 0xBF \<Longrightarrow> between d 0x80 0xBF \<Longrightarrow>
    between e 0x80 0xBF \<Longrightarrow> well_formed bs \<Longrightarrow> well_formed (b # c # d # e # bs)"
| row_F1_F3: "between b 0xF1 0xF3 \<Longrightarrow> between c 0x80 0xBF \<Longrightarrow> between d 0x80 0xBF \<Longrightarrow>
    between e 0x80 0xBF \<Longrightarrow> well_formed bs \<Longrightarrow> well_formed (b # c # d # e # bs)"
| row_F4: "byte b = 0xF4 \<Longrightarrow> between c 0x80 0x8F \<Longrightarrow> between d 0x80 0xBF \<Longrightarrow>
    between e 0x80 0xBF \<Longrightarrow> well_formed bs \<Longrightarrow> well_formed (b # c # d # e # bs)"

code_pred well_formed .

text \<open>\<^verbatim>\<open>fs.readFile(p, 'utf8')\<close>: the text of the file.\<close>

definition readFile :: "node \<Rightarrow> path \<Rightarrow> errno + string" where
  "readFile fs p =
     (case lookup fs p of
        None \<Rightarrow> Inl ENOENT
      | Some (Dir es) \<Rightarrow> Inl EISDIR
      | Some (File c) \<Rightarrow> Inr (utf8 c))"

definition dirname :: "path \<Rightarrow> path" where
  "dirname p = butlast p"


section \<open>The collaborators\<close>

text \<open>
  What the program calls and does not define: the platform's cache directory
  (\<^verbatim>\<open>xdgBasedir.cache || os.tmpdir()\<close>), the two operations of the version-control client
  (each changes the file system and calls back with an error or without one), the
  rendering engine (\<^verbatim>\<open>consolidate.handlebars.render\<close>) over the caller's data, and the
  classifier \<^verbatim>\<open>is-binary-path\<close>.
\<close>

record 'd env =
  xdgCachedir :: path
  pull :: "path \<Rightarrow> string \<Rightarrow> string \<Rightarrow> node \<Rightarrow> node \<times> string option"
  clone :: "string \<Rightarrow> path \<Rightarrow> node \<Rightarrow> node \<times> string option"
  render :: "string \<Rightarrow> 'd \<Rightarrow> string + string"
  isBinaryPath :: "path \<Rightarrow> bool"

section \<open>The cache directory of a repository\<close>

definition lowers :: string where
  "lowers = ''abcdefghijklmnopqrstuvwxyz''"

definition uppers :: string where
  "uppers = ''ABCDEFGHIJKLMNOPQRSTUVWXYZ''"

definition digits :: string where
  "digits = ''0123456789''"

definition is_alnum :: "char \<Rightarrow> bool" where
  "is_alnum c = (c \<in> set (lowers @ uppers @ digits))"

definition toLowerCase :: "char \<Rightarrow> char" where
  "toLowerCase c = (case map_of (zip uppers lowers) c of Some l \<Rightarrow> l | None \<Rightarrow> c)"

fun split_words :: "string \<Rightarrow> string \<Rightarrow> string list" where
  "split_words w [] = (if w = [] then [] else [w])"
| "split_words w (c # cs) =
     (if is_alnum c then split_words (w @ [c]) cs
      else (if w = [] then [] else [w]) @ split_words [] cs)"

fun join_hyphen :: "string list \<Rightarrow> string" where
  "join_hyphen [] = []"
| "join_hyphen [w] = w"
| "join_hyphen (w # v # ws) = w @ CHR ''-'' # join_hyphen (v # ws)"

text \<open>
  Modelled from the spec: \<^verbatim>\<open>kebabCase\<close> is lodash's, a dependency whose code is not
  under src/.  The spec calls its result a filesystem-safe directory name, a
  case-insensitive, word-boundary-delimited slug of lowercase alphanumerics and hyphens.
  Here the words are the maximal runs of ASCII letters and digits, lower-cased and joined
  by hyphens.  (lodash also splits a run where the case or the kind of character changes,
  as in \<^verbatim>\<open>fooBar\<close>; nothing below depends on where a run is split.)
\<close>

definition kebabCase :: "string \<Rightarrow> string" where
  "kebabCase s = join_hyphen (map (map toLowerCase) (split_words [] s))"

fun split_sep :: "string \<Rightarrow> string \<Rightarrow> string list" where
  "split_sep w [] = [w]"
| "split_sep w (c # cs) =
     (if c = CHR ''/'' then w # split_sep [] cs else split_sep (w @ [c]) cs)"

definition norm_step :: "path \<Rightarrow> string \<Rightarrow> path" where
  "norm_step p seg =
     (if seg = [] \<or> seg = ''.'' then p
      else if seg = ''..'' then butlast p
      else p @ [seg])"

text \<open>
  \<^verbatim>\<open>path.join\<close> of an absolute path in normal form with further segments: the segments
  are split at the separator, empty and \<^verbatim>\<open>.\<close> parts are dropped and \<^verbatim>\<open>..\<close> steps up.
\<close>

definition path_join :: "path \<Rightarrow> string list \<Rightarrow> path" where
  "path_join p segs = foldl norm_step p (concat (map (split_sep []) segs))"

definition cachedir :: "'d env \<Rightarrow> string list \<Rightarrow> path" where
  "cachedir E segs = path_join (xdgCachedir E) (''.egad-templates'' # segs)"

definition destPath :: "'d env \<Rightarrow> string \<Rightarrow> path" where
  "destPath E url = cachedir E [kebabCase url]"

section \<open>download\<close>

record opts =
  opt_dest :: "path option"
  offline :: bool
  remote :: string
  branch :: string
  overwrite :: bool

text \<open>The defaults of \<^verbatim>\<open>download\<close> and \<^verbatim>\<open>generate\<close>; \<open>opt_dest = None\<close> is an absent \<^verbatim>\<open>opts.dest\<close>.\<close>

definition defaults :: opts where
  "defaults = \<lparr>opt_dest = None, offline = False, remote = ''origin'', branch = ''master'',
     overwrite = True\<rparr>"

text \<open>
  The errors a call rejects with: the two the program raises itself
  (\<^verbatim>\<open>File exists at ...\<close> and \<^verbatim>\<open>No cache of ... exists in ...\<close>), and those of the file
  system, the version-control client and the rendering engine, passed on.
\<close>

datatype error =
  FileExists path
| NoCache string path
| Sys errno
| Git string
| Render string

definition target :: "'d env \<Rightarrow> string \<Rightarrow> opts \<Rightarrow> path" where
  "target E url opts = (case opt_dest opts of None \<Rightarrow> destPath E url | Some d \<Rightarrow> d)"

text \<open>
  The promise chain before the \<^verbatim>\<open>catch\<close>: create the cache root, \<^verbatim>\<open>stat\<close> the target,
  throw if it is not a directory, pull otherwise.  The result is the file system
  reached and the rejection, if any.
\<close>

definition update :: "'d env \<Rightarrow> string \<Rightarrow> opts \<Rightarrow> node \<Rightarrow> node \<times> error option" where
  "update E url opts fs =
     (case mkdirp fs (cachedir E []) of
        Inl e \<Rightarrow> (fs, Some (Sys e))
      | Inr fs1 \<Rightarrow>
          (case stat fs1 (target E url opts) of
             Inl e \<Rightarrow> (fs1, Some (Sys e))
           | Inr stats \<Rightarrow>
               if \<not> isDirectory stats then (fs1, Some (FileExists (target E url opts)))
               else (case pull E (target E url opts) (remote opts) (branch opts) fs1 of
                       (fs2, Some err) \<Rightarrow> (fs2, Some (Git err))
                     | (fs2, None) \<Rightarrow> (fs2, None))))"

text \<open>
  The handler of \<^verbatim>\<open>catch\<close>: offline, it throws; otherwise it removes the target and
  clones into it.
\<close>

definition fallback :: "'d env \<Rightarrow> string \<Rightarrow> opts \<Rightarrow> node \<Rightarrow> node \<times> (error + path)" where
  "fallback E url opts fs =
     (if offline opts then (fs, Inl (NoCache url (target E url opts)))
      else (case rimraf fs (target E url opts) of
              (fs1, Some e) \<Rightarrow> (fs1, Inl (Sys e))
            | (fs1, None) \<Rightarrow>
                (case clone E url (target E url opts) fs1 of
                   (fs2, Some err) \<Rightarrow> (fs2, Inl (Git err))
                 | (fs2, None) \<Rightarrow> (fs2, Inr (target E url opts)))))"

definition download :: "'d env \<Rightarrow> string \<Rightarrow> opts \<Rightarrow> node \<Rightarrow> node \<times> (error + path)" where
  "download E url opts fs =
     (case update E url opts fs of
        (fs1, None) \<Rightarrow> (fs1, Inr (target E url opts))
      | (fs1, Some err) \<Rightarrow> fallback E url opts fs1)"

section \<open>generate\<close>

text \<open>
  The filter of the walk, \<^verbatim>\<open>_.negate(_.endsWith('.git'))\<close>.  The walk hands it the entry, a
  string: for the root of the walk the string that \<^verbatim>\<open>generate\<close> was given as its source,
  spelled as the caller spelled it, and below the root the string of \<open>join\<close>.
\<close>

definition filterDir :: "string \<Rightarrow> bool" where
  "filterDir entry = (\<not> suffix ''.git'' entry)"

text \<open>
  \<^verbatim>\<open>path.join(entry, part)\<close> of the walk, for the name of a directory entry.  The library
  also brings the string into normal form, which leaves its last component, the name,
  as it is; the filter is the only reader of the string and reads its end.
\<close>

definition join :: "string \<Rightarrow> string \<Rightarrow> string" where
  "join entry part = entry @ ''/'' @ part"

definition readdir :: "(string \<times> node) list \<Rightarrow> string list" where
  "readdir es = remdups (map fst es)"

text \<open>
  \<^verbatim>\<open>Walker.prototype.go\<close>, as the list of the paths it emits as \<^verbatim>\<open>file\<close>.  The entry is
  given as the string the walk holds and as the path \<open>p\<close> that the string names, with the
  node that \<^verbatim>\<open>lstat\<close> finds there: a file is emitted; a directory whose string the filter
  refuses is left; of any other directory every entry is visited.  The filter is asked
  for the root of the walk as well, since it is installed before the first \<^verbatim>\<open>lstat\<close> calls
  back.
\<close>

function go :: "string \<Rightarrow> path \<Rightarrow> node \<Rightarrow> path list" where
  "go entry p (File c) = [p]"
| "go entry p (Dir es) =
     (if \<not> filterDir entry then []
      else concat (map (\<lambda>part. case map_of es part of
                                  None \<Rightarrow> []
                                | Some c \<Rightarrow> go (join entry part) (p @ [part]) c) (readdir es)))"
  by pat_completeness auto
termination
proof (relation "measure (\<lambda>(entry, p, n). size n)")
  fix entry :: string and p :: path and es :: "(string \<times> node) list" and part c
  assume "map_of es part = Some c"
  then have "size c < Suc (size_list (size_prod (\<lambda>_. 0) size) es)"
    by (induction es) (auto split: if_splits)
  then show "((join entry part, p @ [part], c), (entry, p, Dir es))
               \<in> measure (\<lambda>(entry, p, n). size n)"
    by simp
qed simp

text \<open>
  The promise of the walk: the queue holds the emitted files that are not binary, and the
  walk fails when its root cannot be read.  The source is given twice: \<open>spelling\<close> is the
  string that the caller passed, and \<open>source\<close> is the path that this string names.
\<close>

definition walk :: "'d env \<Rightarrow> node \<Rightarrow> string \<Rightarrow> path \<Rightarrow> error + path list" where
  "walk E fs spelling source =
     (case stat fs source of
        Inl e \<Rightarrow> Inl (Sys e)
      | Inr n \<Rightarrow>
          Inr (filter (\<lambda>sourceFilepath. \<not> isBinaryPath E sourceFilepath)
                 (go spelling source n)))"

definition not_brace :: "char \<Rightarrow> bool" where
  "not_brace c = (c \<noteq> CHR ''{'' \<and> c \<noteq> CHR ''}'')"

text \<open>
  The test \<^verbatim>\<open>/{{([^{}]+)}}/g.test(str)\<close>: somewhere in the text two opening braces, one
  or more characters that are no braces, two closing braces.  \<open>match_here\<close> is a match
  that starts at the head of the text; the run of non-braces is followed by a brace or
  by the end, so only the longest run can be followed by the closing pair.
\<close>

fun match_here :: "string \<Rightarrow> bool" where
  "match_here (a # b # rest) =
     (a = CHR ''{'' \<and> b = CHR ''{'' \<and> takeWhile not_brace rest \<noteq> [] \<and>
      prefix ''}}'' (dropWhile not_brace rest))"
| "match_here [a] = False"
| "match_here [] = False"

fun has_marker :: "string \<Rightarrow> bool" where
  "has_marker [] = False"
| "has_marker (c # cs) = (match_here (c # cs) \<or> has_marker cs)"

text \<open>The text to write for a text read: rendered if it has a marker, the same if not.\<close>

definition content :: "'d env \<Rightarrow> 'd \<Rightarrow> string \<Rightarrow> error + string" where
  "content E data str =
     (if has_marker str then
        (case render E str data of Inl e \<Rightarrow> Inl (Render e) | Inr out \<Rightarrow> Inr out)
      else Inr str)"

text \<open>
  \<^verbatim>\<open>path.relative(source, p)\<close> for a path below \<open>source\<close>, which every path of the walk is,
  and \<^verbatim>\<open>path.join(dest, path.relative(source, sourceFilepath))\<close>.
\<close>

definition path_relative :: "path \<Rightarrow> path \<Rightarrow> path" where
  "path_relative source p = drop (length source) p"

definition destFilepath :: "path \<Rightarrow> path \<Rightarrow> path \<Rightarrow> path" where
  "destFilepath source dest sourceFilepath = dest @ path_relative source sourceFilepath"

text \<open>
  The job of one file of the queue: read and render, create the parent directory, write.
  The result is the path written, or nothing when the write found the path taken
  (\<^verbatim>\<open>EEXIST\<close>); any other failure rejects.
\<close>

definition job ::
  "'d env \<Rightarrow> path \<Rightarrow> path \<Rightarrow> 'd \<Rightarrow> opts \<Rightarrow> path \<Rightarrow> node \<Rightarrow> error + (path option \<times> node)" where
  "job E source dest data opts sourceFilepath fs =
     (case readFile fs sourceFilepath of
        Inl e \<Rightarrow> Inl (Sys e)
      | Inr str \<Rightarrow>
          (case content E data str of
             Inl e \<Rightarrow> Inl e
           | Inr out \<Rightarrow>
               (case mkdirp fs (dirname (destFilepath source dest sourceFilepath)) of
                  Inl e \<Rightarrow> Inl (Sys e)
                | Inr fs1 \<Rightarrow>
                    (case writeFile fs1 (destFilepath source dest sourceFilepath) out
                            (if overwrite opts then W else WX) of
                       Inr fs2 \<Rightarrow> Inr (Some (destFilepath source dest sourceFilepath), fs2)
                     | Inl e \<Rightarrow> if e = EEXIST then Inr (None, fs1) else Inl (Sys e)))))"

text \<open>
  \<^verbatim>\<open>Promise.all(queue.map(...))\<close>: the jobs, taken in the order of the queue; the results in
  that order, or the rejection of the first job that fails.  What the file system holds
  after a rejection depends on the jobs still running and is not modelled.
\<close>

fun jobs ::
  "'d env \<Rightarrow> path \<Rightarrow> path \<Rightarrow> 'd \<Rightarrow> opts \<Rightarrow> path list \<Rightarrow> node \<Rightarrow>
     error + (path option list \<times> node)" where
  "jobs E source dest data opts [] fs = Inr ([], fs)"
| "jobs E source dest data opts (sourceFilepath # queue) fs =
     (case job E source dest data opts sourceFilepath fs of
        Inl e \<Rightarrow> Inl e
      | Inr (r, fs1) \<Rightarrow>
          (case jobs E source dest data opts queue fs1 of
             Inl e \<Rightarrow> Inl e
           | Inr (rs, fs2) \<Rightarrow> Inr (r # rs, fs2)))"

fun compact :: "path option list \<Rightarrow> path list" where
  "compact [] = []"
| "compact (None # rs) = compact rs"
| "compact (Some p # rs) = p # compact rs"

text \<open>
  \<^verbatim>\<open>generate(source, dest, data, opts)\<close>.  Of the source the program uses the string (the
  filter of the walk reads it) and the directory it names (the file system reads it), so
  here it is given as both, \<open>spelling\<close> and \<open>source\<close>; which paths a string names is the
  platform's matter and is left open, and what follows holds for every pair.
\<close>

definition generate ::
  "'d env \<Rightarrow> string \<Rightarrow> path \<Rightarrow> path \<Rightarrow> 'd \<Rightarrow> opts \<Rightarrow> node \<Rightarrow>
     error + (path list \<times> node)" where
  "generate E spelling source dest data opts fs =
     (case mkdirp fs dest of
        Inl e \<Rightarrow> Inl (Sys e)
      | Inr fs1 \<Rightarrow>
          (case walk E fs1 spelling source of
             Inl e \<Rightarrow> Inl e
           | Inr queue \<Rightarrow>
               (case jobs E source dest data opts queue fs1 of
                  Inl e \<Rightarrow> Inl e
                | Inr (rs, fs2) \<Rightarrow> Inr (compact rs, fs2))))"

section \<open>Stand-ins for the collaborators\<close>

text \<open>
  A small version-control client, rendering engine and classifier, and a cache root, for
  running the program on concrete file systems.  The pull succeeds in a working copy that
  has a \<^verbatim>\<open>.git\<close> entry and changes nothing; the clone creates the working copy with its
  \<^verbatim>\<open>.git\<close> directory; the engine knows one template; a path is binary when it ends
  with \<^verbatim>\<open>.png\<close>.
\<close>

definition git_pull :: "path \<Rightarrow> string \<Rightarrow> string \<Rightarrow> node \<Rightarrow> node \<times> string option" where
  "git_pull wc r b fs =
     (case lookup fs (wc @ [''.git'']) of
        None \<Rightarrow> (fs, Some ''not a git repository'')
      | Some n \<Rightarrow> (fs, None))"

definition git_clone :: "string \<Rightarrow> path \<Rightarrow> node \<Rightarrow> node \<times> string option" where
  "git_clone url d fs =
     (case mkdirp fs (d @ [''.git'']) of
        Inl e \<Rightarrow> (fs, Some ''could not create work tree'')
      | Inr fs1 \<Rightarrow> (fs1, None))"

definition hello_render :: "string \<Rightarrow> (string \<times> string) list \<Rightarrow> string + string" where
  "hello_render str data =
     (if str = ''Hello {{name}}'' then
        (case map_of data ''name'' of None \<Rightarrow> Inr ''Hello '' | Some v \<Rightarrow> Inr (''Hello '' @ v))
      else Inl ''Parse error'')"

definition is_png :: "path \<Rightarrow> bool" where
  "is_png p = (p \<noteq> [] \<and> suffix ''.png'' (last p))"

definition test_env :: "(string \<times> string) list env" where
  "test_env = \<lparr>xdgCachedir = [''home'', ''.cache''], pull = git_pull, clone = git_clone,
     render = hello_render, isBinaryPath = is_png\<rparr>"

definition fs_conflict :: node where
  "fs_conflict =
     Dir [(''home'', Dir [(''.cache'', Dir [(''.egad-templates'',
       Dir [(''my-repo'', File ''stray'')])])])]"



text \<open>
  A template repository with a template, two plain files, an image, and version-control
  metadata at two depths; the same next to what \<^verbatim>\<open>generate\<close> makes of it; a repository of
  images only; one with a file in Latin-1, \<^verbatim>\<open>caf\<close> and the byte E9; an empty one.
\<close>

definition tpl_tree :: node where
  "tpl_tree =
     Dir [(''hello.txt'', File ''Hello {{name}}''),
          (''plain.txt'', File ''plain text''),
          (''logo.png'', File ''{{name}}''),
          (''.git'', Dir [(''HEAD'', File ''ref'')]),
          (''lib'', Dir [(''.git'', Dir [(''config'', File ''core'')]),
                        (''empty.txt'', File ''a {{}} b'')])]"

definition fs_templates :: node where
  "fs_templates = Dir [(''tpl'', tpl_tree)]"

definition written_paths :: "path list" where
  "written_paths =
     [[''out'', ''hello.txt''], [''out'', ''plain.txt''], [''out'', ''lib'', ''empty.txt'']]"

definition fs_generated :: node where
  "fs_generated =
     Dir [(''tpl'', tpl_tree),
          (''out'',
       Dir [(''hello.txt'', File ''Hello World''),
            (''plain.txt'', File ''plain text''),
            (''lib'', Dir [(''empty.txt'', File ''a {{}} b'')])])]"

definition png_tree :: node where
  "png_tree = Dir [(''logo.png'', File ''{{name}}'')]"

definition fs_images :: node where
  "fs_images = Dir [(''tpl'', png_tree)]"

definition world :: "(string \<times> string) list" where
  "world = [(''name'', ''World'')]"

definition fs_latin1 :: node where
  "fs_latin1 = Dir [(''tpl'', Dir [(''cafe.txt'', File (''caf'' @ [CHR 0xE9]))])]"

definition fs_empty_source :: node where
  "fs_empty_source = Dir [(''tpl'', Dir [])]"

text \<open>
  A repository with a file in UTF-8 whose characters take one, two, three and four bytes
  (\<^verbatim>\<open>caf\<close>, U+00E9, a space, U+20AC, a space, U+1F600), and the same next to its copy.
\<close>

definition menu :: string where
  "menu = ''caf'' @ [CHR 0xC3, CHR 0xA9] @ '' '' @ [CHR 0xE2, CHR 0x82, CHR 0xAC] @ '' '' @
     [CHR 0xF0, CHR 0x9F, CHR 0x98, CHR 0x80]"

definition fs_menu :: node where
  "fs_menu = Dir [(''tpl'', Dir [(''menu.txt'', File menu)])]"

definition fs_menu_copied :: node where
  "fs_menu_copied =
     Dir [(''tpl'', Dir [(''menu.txt'', File menu)]), (''out'', Dir [(''menu.txt'', File menu)])]"

text \<open>The empty repository next to a directory three levels deep.\<close>

definition fs_deep :: node where
  "fs_deep = Dir [(''tpl'', Dir []), (''out'', Dir [(''a'', Dir [(''b'', Dir [])])])]"

section \<open>Properties of the file system\<close>


lemma lookup_append:
  "lookup n (p @ q) = (case lookup n p of None \<Rightarrow> None | Some m \<Rightarrow> lookup m q)"
  by (induction n p rule: lookup.induct) (auto split: option.splits)

lemma lookup_File: "lookup (File c) q = Some m \<longleftrightarrow> q = [] \<and> m = File c"
  by (cases q) auto

lemma lookup_Dir_Nil: "lookup (Dir []) q = Some m \<longleftrightarrow> q = [] \<and> m = Dir []"
  by (cases q) auto

lemma mkdirp_Cons:
  assumes "mkdirp (Dir es) (x # xs) = Inr n'"
  obtains c' where "mkdirp (case map_of es x of None \<Rightarrow> Dir [] | Some c \<Rightarrow> c) xs = Inr c'"
    and "n' = Dir (AList.update x c' es)"
  using assms by (auto split: sum.splits)

lemma mkdirp_isdir: "mkdirp n p = Inr n' \<Longrightarrow> \<exists>es. lookup n' p = Some (Dir es)"
proof (induction n p arbitrary: n' rule: mkdirp.induct)
  case (4 es x xs)
  then show ?case
    by (auto split: sum.splits simp: update_conv')
qed auto

lemma mkdirp_frame:
  "mkdirp n p = Inr n' \<Longrightarrow> \<not> prefix q p \<Longrightarrow> lookup n' q = lookup n q"
proof (induction n p arbitrary: n' q rule: mkdirp.induct)
  case (4 es x xs)
  from "4.prems"(1) obtain c' where
    c': "mkdirp (case map_of es x of None \<Rightarrow> Dir [] | Some c \<Rightarrow> c) xs = Inr c'"
    and n': "n' = Dir (AList.update x c' es)"
    by (rule mkdirp_Cons)
  note IH = "4.IH" [OF c']
  show ?case
  proof (cases q)
    case Nil
    with "4.prems"(2) show ?thesis by simp
  next
    case (Cons y ys)
    show ?thesis
    proof (cases "y = x")
      case True
      with Cons "4.prems"(2) have "\<not> prefix ys xs" by simp
      then have "lookup c' ys = lookup (case map_of es x of None \<Rightarrow> Dir [] | Some c \<Rightarrow> c) ys"
        by (rule IH)
      moreover from \<open>\<not> prefix ys xs\<close> have "ys \<noteq> []" by auto
      ultimately show ?thesis using Cons True n'
        by (cases "map_of es x"; cases ys) (simp_all add: update_conv')
    next
      case False
      with Cons n' show ?thesis by (simp add: update_conv')
    qed
  qed
qed auto

lemma mkdirp_file:
  "mkdirp n p = Inr n' \<Longrightarrow> lookup n' q = Some (File c) \<longleftrightarrow> lookup n q = Some (File c)"
proof (induction n p arbitrary: n' q rule: mkdirp.induct)
  case (4 es x xs)
  from "4.prems" obtain c' where
    c': "mkdirp (case map_of es x of None \<Rightarrow> Dir [] | Some c \<Rightarrow> c) xs = Inr c'"
    and n': "n' = Dir (AList.update x c' es)"
    by (rule mkdirp_Cons)
  note IH = "4.IH" [OF c']
  show ?case
  proof (cases q)
    case Nil
    with n' show ?thesis by simp
  next
    case (Cons y ys)
    show ?thesis
    proof (cases "y = x")
      case True
      with Cons n' IH [of ys] show ?thesis
        by (cases "map_of es x") (simp_all add: update_conv' lookup_Dir_Nil)
    next
      case False
      with Cons n' show ?thesis by (simp add: update_conv')
    qed
  qed
qed auto

lemma mkdirp_dir:
  "mkdirp n p = Inr n' \<Longrightarrow> lookup n q = Some (Dir ds) \<Longrightarrow> \<exists>ds'. lookup n' q = Some (Dir ds')"
proof (induction n p arbitrary: n' q ds rule: mkdirp.induct)
  case (4 es x xs)
  from "4.prems"(1) obtain c' where
    c': "mkdirp (case map_of es x of None \<Rightarrow> Dir [] | Some c \<Rightarrow> c) xs = Inr c'"
    and n': "n' = Dir (AList.update x c' es)"
    by (rule mkdirp_Cons)
  note IH = "4.IH" [OF c']
  show ?case
  proof (cases q)
    case Nil
    with n' show ?thesis by simp
  next
    case (Cons y ys)
    show ?thesis
    proof (cases "y = x")
      case True
      with Cons n' IH [of ys ds] "4.prems"(2) show ?thesis
        by (cases "map_of es x") (simp_all add: update_conv')
    next
      case False
      with Cons n' "4.prems"(2) show ?thesis by (simp add: update_conv')
    qed
  qed
qed auto

lemma mkdirp_existing: "lookup n p = Some (Dir ds) \<Longrightarrow> mkdirp n p = Inr n"
proof (induction n p arbitrary: ds rule: mkdirp.induct)
  case (4 es x xs)
  then show ?case
    by (auto split: option.splits simp: update_triv)
qed auto

lemma lookup_prefix_dir:
  assumes "lookup n p = Some (Dir es)" and "prefix q p"
  shows "\<exists>ds. lookup n q = Some (Dir ds)"
proof -
  from assms(2) obtain r where p: "p = q @ r" by (auto simp: prefix_def)
  with assms(1) obtain m where m: "lookup n q = Some m" and r: "lookup m r = Some (Dir es)"
    by (auto simp: lookup_append split: option.splits)
  from r have "\<exists>ds. m = Dir ds" by (cases m) (auto simp: lookup_File)
  with m show ?thesis by auto
qed

lemma mkdirp_ancestors:
  "mkdirp n p = Inr n' \<Longrightarrow> prefix q p \<Longrightarrow> \<exists>ds. lookup n' q = Some (Dir ds)"
  using mkdirp_isdir lookup_prefix_dir by blast

lemma mkdirp_blocked:
  assumes "mkdirp n p = Inr n'" and "prefix q p"
  shows "lookup n q \<noteq> Some (File c)"
proof
  assume "lookup n q = Some (File c)"
  with assms(1) have "lookup n' q = Some (File c)" by (simp add: mkdirp_file)
  moreover from assms obtain ds where "lookup n' q = Some (Dir ds)"
    by (blast dest: mkdirp_ancestors)
  ultimately show False by simp
qed

lemma mkdirp_succeeds:
  "(\<And>q c. prefix q p \<Longrightarrow> lookup n q \<noteq> Some (File c)) \<Longrightarrow> \<exists>n'. mkdirp n p = Inr n'"
proof (induction n p rule: mkdirp.induct)
  case (1 es)
  then show ?case by simp
next
  case (2 c)
  from "2.prems" [of "[]" c] show ?case by simp
next
  case (3 c x xs)
  from "3.prems" [of "[]" c] show ?case by simp
next
  case (4 es x xs)
  let ?child = "case map_of es x of None \<Rightarrow> Dir [] | Some c \<Rightarrow> c"
  have "lookup ?child q \<noteq> Some (File c)" if "prefix q xs" for q c
  proof (cases "map_of es x")
    case None
    then show ?thesis by (simp add: lookup_Dir_Nil)
  next
    case (Some d)
    from that have "prefix (x # q) (x # xs)" by simp
    from "4.prems" [OF this, of c] Some show ?thesis by simp
  qed
  with "4.IH" obtain c' where "mkdirp ?child xs = Inr c'" by blast
  then show ?case by simp
qed

lemma mkdirp_new:
  "lookup n p = None \<Longrightarrow> mkdirp n p = Inr n' \<Longrightarrow> lookup n' p = Some (Dir [])"
proof (induction n p arbitrary: n' rule: mkdirp.induct)
  case (4 es x xs)
  let ?child = "case map_of es x of None \<Rightarrow> Dir [] | Some c \<Rightarrow> c"
  from "4.prems"(2) obtain c' where c': "mkdirp ?child xs = Inr c'"
    and n': "n' = Dir (AList.update x c' es)"
    by (rule mkdirp_Cons)
  have "lookup c' xs = Some (Dir [])"
  proof (cases "lookup ?child xs")
    case None
    then show ?thesis using c' by (rule "4.IH")
  next
    case (Some m)
    with "4.prems"(1) have "map_of es x = None" by (auto split: option.splits)
    with Some have "xs = []" by (simp add: lookup_Dir_Nil)
    with c' \<open>map_of es x = None\<close> show ?thesis by auto
  qed
  with n' show ?case by (simp add: update_conv')
qed auto

lemma writeFile_at: "writeFile n p s fl = Inr n' \<Longrightarrow> lookup n' p = Some (File s)"
proof (induction n p s fl arbitrary: n' rule: writeFile.induct)
  case (6 es x xs s fl)
  then show ?case
    by (auto split: option.splits sum.splits if_splits simp: update_conv')
qed auto

lemma writeFile_Cons:
  assumes "writeFile (Dir es) (x # xs) s fl = Inr n'"
  obtains "map_of es x = None" and "xs = []" and "n' = Dir (AList.update x (File s) es)"
  | c c' where "map_of es x = Some c" and "writeFile c xs s fl = Inr c'"
      and "n' = Dir (AList.update x c' es)"
  using assms by (auto split: sum.splits option.splits if_splits)

lemma writeFile_frame:
  "writeFile n p s fl = Inr n' \<Longrightarrow> \<not> prefix q p \<Longrightarrow> lookup n' q = lookup n q"
proof (induction n p s fl arbitrary: n' q rule: writeFile.induct)
  case (6 es x xs s fl)
  show ?case
  proof (cases q)
    case Nil
    with 6 show ?thesis by simp
  next
    case (Cons y ys)
    from "6.prems"(1) show ?thesis
    proof (cases rule: writeFile_Cons)
      case 1
      with Cons "6.prems"(2) show ?thesis
        by (cases ys) (auto simp: update_conv')
    next
      case (2 c c')
      with Cons "6.prems"(2) "6.IH" [of c c' ys] show ?thesis
        by (auto simp: update_conv')
    qed
  qed
next
  case (1 c s)
  then show ?case by (cases q) auto
qed auto

lemma writeFile_file:
  "writeFile n p s fl = Inr n' \<Longrightarrow> q \<noteq> p \<Longrightarrow>
     lookup n' q = Some (File c) \<longleftrightarrow> lookup n q = Some (File c)"
proof (induction n p s fl arbitrary: n' q rule: writeFile.induct)
  case (6 es x xs s fl)
  show ?case
  proof (cases q)
    case Nil
    with 6 show ?thesis by (auto split: sum.splits option.splits if_splits)
  next
    case (Cons y ys)
    from "6.prems"(1) show ?thesis
    proof (cases rule: writeFile_Cons)
      case 1
      with Cons "6.prems"(2) show ?thesis
        by (cases ys) (auto simp: update_conv')
    next
      case (2 d d')
      with Cons "6.prems"(2) "6.IH" [of d d' ys] show ?thesis
        by (auto simp: update_conv')
    qed
  qed
next
  case (1 c s)
  then show ?case by (cases q) auto
qed auto

lemma writeFile_dir:
  "writeFile n p s fl = Inr n' \<Longrightarrow> lookup n q = Some (Dir ds) \<Longrightarrow>
     \<exists>ds'. lookup n' q = Some (Dir ds')"
proof (induction n p s fl arbitrary: n' q ds rule: writeFile.induct)
  case (6 es x xs s fl)
  show ?case
  proof (cases q)
    case Nil
    with 6 show ?thesis by (auto split: sum.splits option.splits if_splits)
  next
    case (Cons y ys)
    from "6.prems"(1) show ?thesis
    proof (cases rule: writeFile_Cons)
      case 1
      with Cons "6.prems"(2) show ?thesis
        by (cases ys) (auto simp: update_conv')
    next
      case (2 d d')
      with Cons "6.prems"(2) "6.IH" [of d d' ys ds] show ?thesis
        by (auto simp: update_conv')
    qed
  qed
next
  case (1 c s)
  then show ?case by (cases q) auto
qed auto

lemma writeFile_EEXIST:
  "writeFile n p s fl = Inl EEXIST \<longleftrightarrow> fl = WX \<and> lookup n p \<noteq> None"
proof (induction n p s fl rule: writeFile.induct)
  case (6 es x xs s fl)
  then show ?case
    by (auto split: option.splits sum.splits)
qed auto

section \<open>Properties of download\<close>

lemma rimraf_removes:
  "lookup n p \<noteq> None \<Longrightarrow> p \<noteq> [] \<Longrightarrow> \<exists>n'. rimraf n p = (n', None) \<and> lookup n' p = None"
proof (induction n p rule: rimraf.induct)
  case (4 es x)
  then show ?case by (simp add: delete_conv')
next
  case (5 es x y ys)
  then show ?case
    by (cases "map_of es x") (auto simp: update_conv' split: prod.splits)
qed auto









lemma download_file:
  assumes "lookup fs (target E url opts) = Some (File c)"
  shows "download E url opts fs =
     fallback E url opts (case mkdirp fs (cachedir E []) of Inl e \<Rightarrow> fs | Inr fs1 \<Rightarrow> fs1)"
proof (cases "mkdirp fs (cachedir E [])")
  case (Inl e)
  then show ?thesis by (simp add: download_def update_def)
next
  case (Inr fs1)
  with assms have "lookup fs1 (target E url opts) = Some (File c)"
    by (simp add: mkdirp_file)
  with Inr show ?thesis by (simp add: download_def update_def stat_def)
qed

section \<open>Properties of the slug and of the marker test\<close>

lemma toLowerCase_map: "map toLowerCase (lowers @ uppers @ digits) = lowers @ lowers @ digits"
  by (simp add: toLowerCase_def lowers_def uppers_def digits_def)

lemma toLowerCase_alnum:
  assumes "is_alnum c" shows "toLowerCase c \<in> set (lowers @ digits)"
proof -
  from assms have "toLowerCase c \<in> set (map toLowerCase (lowers @ uppers @ digits))"
    unfolding is_alnum_def set_map by (rule imageI)
  then show ?thesis unfolding toLowerCase_map by auto
qed

lemma split_words_alnum:
  "\<forall>c\<in>set w. is_alnum c \<Longrightarrow> v \<in> set (split_words w s) \<Longrightarrow> d \<in> set v \<Longrightarrow> is_alnum d"
proof (induction s arbitrary: w)
  case Nil
  then show ?case by (simp split: if_splits)
next
  case (Cons c cs)
  show ?case
  proof (cases "is_alnum c")
    case True
    with Cons.prems have "\<forall>a\<in>set (w @ [c]). is_alnum a" and "v \<in> set (split_words (w @ [c]) cs)"
      by simp_all
    then show ?thesis using Cons.prems(3) by (rule Cons.IH)
  next
    case False
    with Cons.prems(2) have "v = w \<or> v \<in> set (split_words [] cs)"
      by (simp split: if_splits)
    then show ?thesis
    proof
      assume "v = w" with Cons.prems show ?thesis by simp
    next
      assume "v \<in> set (split_words [] cs)"
      with Cons.IH [of "[]"] Cons.prems(3) show ?thesis by simp
    qed
  qed
qed

lemma set_join_hyphen:
  "c \<in> set (join_hyphen ws) \<Longrightarrow> c = CHR ''-'' \<or> (\<exists>w\<in>set ws. c \<in> set w)"
  by (induction ws rule: join_hyphen.induct) auto

lemma kebabCase_chars: "set (kebabCase s) \<subseteq> set (lowers @ digits @ ''-'')"
proof
  fix c assume "c \<in> set (kebabCase s)"
  then have "c \<in> set (join_hyphen (map (map toLowerCase) (split_words [] s)))"
    by (simp only: kebabCase_def)
  then have "c = CHR ''-'' \<or> (\<exists>w\<in>set (map (map toLowerCase) (split_words [] s)). c \<in> set w)"
    by (rule set_join_hyphen)
  then show "c \<in> set (lowers @ digits @ ''-'')"
  proof
    assume "c = CHR ''-''" then show ?thesis by simp
  next
    assume "\<exists>w\<in>set (map (map toLowerCase) (split_words [] s)). c \<in> set w"
    then obtain v where v: "v \<in> set (split_words [] s)" and "c \<in> set (map toLowerCase v)"
      by auto
    then obtain d where d: "d \<in> set v" and c: "c = toLowerCase d"
      by auto
    from _ v d have "is_alnum d" by (rule split_words_alnum) simp
    then have "toLowerCase d \<in> set (lowers @ digits)" by (rule toLowerCase_alnum)
    with c show ?thesis by simp
  qed
qed


lemma split_sep_plain: "CHR ''/'' \<notin> set s \<Longrightarrow> split_sep w s = [w @ s]"
  by (induction w s rule: split_sep.induct) auto

lemma path_join_slug:
  assumes "set s \<subseteq> set (lowers @ digits @ ''-'')" and "s \<noteq> []"
  shows "path_join p [''.egad-templates'', s] = p @ [''.egad-templates'', s]"
proof -
  from assms(1) have "CHR ''/'' \<notin> set s" and "CHR ''.'' \<notin> set s"
    by (auto simp: lowers_def digits_def)
  then have "split_sep [] s = [s]" and "s \<noteq> ''.''" and "s \<noteq> ''..''"
    by (auto simp: split_sep_plain)
  with assms(2) show ?thesis
    by (simp add: path_join_def norm_step_def)
qed

lemma match_here_iff:
  "match_here t \<longleftrightarrow>
     (\<exists>mid post. t = ''{{'' @ mid @ ''}}'' @ post \<and> mid \<noteq> [] \<and> (\<forall>c\<in>set mid. not_brace c))"
proof
  assume "match_here t"
  then obtain rest where t: "t = CHR ''{'' # CHR ''{'' # rest"
    and mid: "takeWhile not_brace rest \<noteq> []"
    and pre: "prefix ''}}'' (dropWhile not_brace rest)"
    by (cases t rule: match_here.cases) auto
  from pre obtain post where "dropWhile not_brace rest = ''}}'' @ post"
    by (auto simp: prefix_def)
  then have "rest = takeWhile not_brace rest @ ''}}'' @ post"
    by (metis takeWhile_dropWhile_id)
  with t mid show "\<exists>mid post. t = ''{{'' @ mid @ ''}}'' @ post \<and> mid \<noteq> [] \<and> (\<forall>c\<in>set mid. not_brace c)"
    by (metis append_Cons append_Nil set_takeWhileD)
next
  assume "\<exists>mid post. t = ''{{'' @ mid @ ''}}'' @ post \<and> mid \<noteq> [] \<and> (\<forall>c\<in>set mid. not_brace c)"
  then obtain mid post where t: "t = ''{{'' @ mid @ ''}}'' @ post" and "mid \<noteq> []"
    and nb: "\<forall>c\<in>set mid. not_brace c"
    by blast
  have "\<not> not_brace (CHR ''}'')" by (simp add: not_brace_def)
  with nb have "takeWhile not_brace (mid @ ''}}'' @ post) = mid"
    and "dropWhile not_brace (mid @ ''}}'' @ post) = ''}}'' @ post"
    by (simp_all add: takeWhile_tail dropWhile_append3)
  with t \<open>mid \<noteq> []\<close> show "match_here t" by simp
qed

lemma has_marker_suffix: "has_marker s \<longleftrightarrow> (\<exists>pre t. s = pre @ t \<and> match_here t)"
proof (induction s)
  case Nil
  then show ?case by simp
next
  case (Cons c cs)
  show ?case
  proof
    assume "has_marker (c # cs)"
    then show "\<exists>pre t. c # cs = pre @ t \<and> match_here t"
      using Cons.IH by (metis append_Cons append_Nil has_marker.simps(2))
  next
    assume "\<exists>pre t. c # cs = pre @ t \<and> match_here t"
    then obtain pre t where *: "c # cs = pre @ t" "match_here t" by blast
    show "has_marker (c # cs)"
    proof (cases pre)
      case Nil
      with * have "match_here (c # cs)" by simp
      then show ?thesis by simp
    next
      case (Cons a pre')
      with * have "cs = pre' @ t" by simp
      with * Cons.IH show ?thesis by auto
    qed
  qed
qed

lemma has_marker_iff:
  "has_marker s \<longleftrightarrow>
     (\<exists>pre mid post. s = pre @ ''{{'' @ mid @ ''}}'' @ post \<and> mid \<noteq> [] \<and>
        (\<forall>c\<in>set mid. not_brace c))"
  unfolding has_marker_suffix match_here_iff by blast

lemma no_marker_empty_expression:
  assumes "\<forall>c\<in>set pre. not_brace c" and "\<forall>c\<in>set post. not_brace c"
  shows "\<not> has_marker (pre @ ''{{}}'' @ post)"
  using assms
proof (induction pre)
  case Nil
  have "\<not> has_marker post" using Nil(2)
  proof (induction post)
    case (Cons a post)
    then show ?case by (cases post) (auto simp: not_brace_def)
  qed simp
  then show ?case by (cases post) (auto simp: not_brace_def)
next
  case (Cons a pre)
  then have "\<not> match_here (a # pre @ ''{{}}'' @ post)"
    by (cases pre) (auto simp: not_brace_def)
  with Cons show ?case by simp
qed

section \<open>Properties of the decoder\<close>

lemma utf8_well_formed: "well_formed c \<Longrightarrow> utf8 c = c"
  by (induction c rule: well_formed.induct)
     (simp_all add: between_def lower_bound_def upper_bound_def)

lemma well_formed_three:
  assumes "between b 0xE0 0xEF" and "between c (lower_bound b) (upper_bound b)"
    and "between d 0x80 0xBF" and "well_formed bs"
  shows "well_formed (b # c # d # bs)"
proof -
  from assms(1) consider "byte b = 0xE0" | "between b 0xE1 0xEC" | "byte b = 0xED"
    | "between b 0xEE 0xEF"
    unfolding between_def by arith
  then show ?thesis
  proof cases
    case 1
    with assms show ?thesis by (intro row_E0) (simp_all add: lower_bound_def upper_bound_def)
  next
    case 2
    with assms show ?thesis
      by (intro row_E1_EC) (simp_all add: lower_bound_def upper_bound_def between_def)
  next
    case 3
    with assms show ?thesis by (intro row_ED) (simp_all add: lower_bound_def upper_bound_def)
  next
    case 4
    with assms show ?thesis
      by (intro row_EE_EF) (simp_all add: lower_bound_def upper_bound_def between_def)
  qed
qed

lemma well_formed_four:
  assumes "between b 0xF0 0xF4" and "between c (lower_bound b) (upper_bound b)"
    and "between d 0x80 0xBF" and "between e 0x80 0xBF" and "well_formed bs"
  shows "well_formed (b # c # d # e # bs)"
proof -
  from assms(1) consider "byte b = 0xF0" | "between b 0xF1 0xF3" | "byte b = 0xF4"
    unfolding between_def by arith
  then show ?thesis
  proof cases
    case 1
    with assms show ?thesis by (intro row_F0) (simp_all add: lower_bound_def upper_bound_def)
  next
    case 2
    with assms show ?thesis
      by (intro row_F1_F3) (simp_all add: lower_bound_def upper_bound_def between_def)
  next
    case 3
    with assms show ?thesis by (intro row_F4) (simp_all add: lower_bound_def upper_bound_def)
  qed
qed

lemma well_formed_replacement: "well_formed bs \<Longrightarrow> well_formed (replacement @ bs)"
  unfolding replacement_def
  by (simp, intro row_EE_EF) (simp_all add: between_def byte_def)


lemma well_formed_utf8: "well_formed (utf8 c)"
proof (induction c rule: utf8.induct)
  case 1
  show ?case by (simp add: empty)
next
  case (2 b bs)
  have rep: "well_formed replacement"
    using well_formed_replacement [OF empty] by simp
  from 2 rep show ?case
    by (simp add: row_00_7F row_C2_DF well_formed_three well_formed_four
          well_formed_replacement split: list.split)
qed

lemma utf8_id_iff: "utf8 c = c \<longleftrightarrow> well_formed c"
  using utf8_well_formed well_formed_utf8 [of c] by auto


lemma utf8_Cons_cases:
  obtains (ascii) "byte b < 0x80" and "utf8 (b # bs) = b # utf8 bs"
  | (two) c rest where "bs = c # rest" and "between b 0xC2 0xDF" and "between c 0x80 0xBF"
      and "utf8 (b # bs) = b # c # utf8 rest"
  | (three) c d rest where "bs = c # d # rest" and "between b 0xE0 0xEF"
      and "between c (lower_bound b) (upper_bound b)" and "between d 0x80 0xBF"
      and "utf8 (b # bs) = b # c # d # utf8 rest"
  | (four) c d e rest where "bs = c # d # e # rest" and "between b 0xF0 0xF4"
      and "between c (lower_bound b) (upper_bound b)" and "between d 0x80 0xBF"
      and "between e 0x80 0xBF" and "utf8 (b # bs) = b # c # d # e # utf8 rest"
  | (replaced) xs where "utf8 (b # bs) = replacement @ xs"
proof -
  have "byte b < 0x80 \<and> utf8 (b # bs) = b # utf8 bs
    \<or> (\<exists>c rest. bs = c # rest \<and> between b 0xC2 0xDF \<and> between c 0x80 0xBF \<and>
          utf8 (b # bs) = b # c # utf8 rest)
    \<or> (\<exists>c d rest. bs = c # d # rest \<and> between b 0xE0 0xEF \<and>
          between c (lower_bound b) (upper_bound b) \<and> between d 0x80 0xBF \<and>
          utf8 (b # bs) = b # c # d # utf8 rest)
    \<or> (\<exists>c d e rest. bs = c # d # e # rest \<and> between b 0xF0 0xF4 \<and>
          between c (lower_bound b) (upper_bound b) \<and> between d 0x80 0xBF \<and>
          between e 0x80 0xBF \<and> utf8 (b # bs) = b # c # d # e # utf8 rest)
    \<or> (\<exists>xs. utf8 (b # bs) = replacement @ xs)"
  proof (cases bs)
    case Nil
    have "replacement = replacement @ []" by simp
    with Nil show ?thesis by (simp del: append_Nil2; blast)
  next
    case c: (Cons c rest)
    show ?thesis
    proof (cases rest)
      case Nil
      have "replacement = replacement @ []" by simp
      with c Nil show ?thesis by (simp del: append_Nil2; blast)
    next
      case d: (Cons d rest')
      show ?thesis
      proof (cases rest')
        case Nil
        have "replacement = replacement @ []" by simp
        with c d Nil show ?thesis by (simp del: append_Nil2; blast)
      next
        case e: (Cons e rest'')
        have "utf8 (b # c # d # e # rest'') =
          (if byte b < 0x80 then b # utf8 (c # d # e # rest'')
           else if between b 0xC2 0xDF then
             if between c 0x80 0xBF then b # c # utf8 (d # e # rest'')
             else replacement @ utf8 (c # d # e # rest'')
           else if between b 0xE0 0xEF then
             if between c (lower_bound b) (upper_bound b) then
               if between d 0x80 0xBF then b # c # d # utf8 (e # rest'')
               else replacement @ utf8 (d # e # rest'')
             else replacement @ utf8 (c # d # e # rest'')
           else if between b 0xF0 0xF4 then
             if between c (lower_bound b) (upper_bound b) then
               if between d 0x80 0xBF then
                 if between e 0x80 0xBF then b # c # d # e # utf8 rest''
                 else replacement @ utf8 (e # rest'')
               else replacement @ utf8 (d # e # rest'')
             else replacement @ utf8 (c # d # e # rest'')
           else replacement @ utf8 (c # d # e # rest''))"
          by (subst utf8.simps(2)) (simp del: utf8.simps)
        with c d e show ?thesis by (simp del: utf8.simps; blast)
      qed
    qed
  qed
  with that show thesis by blast
qed


lemma utf8_replaces: "well_formed c \<or> sublist replacement (utf8 c)"
proof (induction "length c" arbitrary: c rule: less_induct)
  case less
  show ?case
  proof (cases c)
    case Nil
    then show ?thesis by (simp add: empty)
  next
    case (Cons b bs)
    have keep: "sublist replacement (xs @ ys)" if "sublist replacement ys" for xs ys
      using that by (auto simp: sublist_def) (metis append.assoc)
    show ?thesis
    proof (cases b bs rule: utf8_Cons_cases)
      case ascii
      from less [of bs] Cons consider "well_formed bs" | "sublist replacement (utf8 bs)"
        by auto
      then show ?thesis
      proof cases
        case 1
        with ascii have "well_formed (b # bs)" by (intro row_00_7F) simp_all
        with Cons show ?thesis by simp
      next
        case 2
        then have "sublist replacement ([b] @ utf8 bs)" by (rule keep)
        with ascii Cons show ?thesis by simp
      qed
    next
      case (two c' rest)
      from less [of rest] Cons two consider "well_formed rest" | "sublist replacement (utf8 rest)"
        by auto
      then show ?thesis
      proof cases
        case 1
        with two have "well_formed (b # c' # rest)" by (intro row_C2_DF)
        with Cons two show ?thesis by simp
      next
        case 2
        then have "sublist replacement ([b, c'] @ utf8 rest)" by (rule keep)
        with two Cons show ?thesis by simp
      qed
    next
      case (three c' d rest)
      from less [of rest] Cons three
      consider "well_formed rest" | "sublist replacement (utf8 rest)"
        by auto
      then show ?thesis
      proof cases
        case 1
        with three have "well_formed (b # c' # d # rest)" by (intro well_formed_three)
        with Cons three show ?thesis by simp
      next
        case 2
        then have "sublist replacement ([b, c', d] @ utf8 rest)" by (rule keep)
        with three Cons show ?thesis by simp
      qed
    next
      case (four c' d e rest)
      from less [of rest] Cons four
      consider "well_formed rest" | "sublist replacement (utf8 rest)"
        by auto
      then show ?thesis
      proof cases
        case 1
        with four have "well_formed (b # c' # d # e # rest)" by (intro well_formed_four)
        with Cons four show ?thesis by simp
      next
        case 2
        then have "sublist replacement ([b, c', d, e] @ utf8 rest)" by (rule keep)
        with four Cons show ?thesis by simp
      qed
    next
      case (replaced xs)
      with Cons show ?thesis by simp
    qed
  qed
qed

section \<open>Properties of the walk and of the jobs\<close>

lemma filterDir_join: "filterDir (join entry part) \<longleftrightarrow> \<not> suffix ''.git'' part"
proof -
  have "prefix ''tig.'' (rev part @ CHR ''/'' # rev entry) \<longleftrightarrow> prefix ''tig.'' (rev part)"
    by (auto simp: prefix_append prefix_Cons Cons_eq_append_conv append_eq_Cons_conv)
  then have "suffix ''.git'' (entry @ CHR ''/'' # part) \<longleftrightarrow> suffix ''.git'' part"
    by (simp add: suffix_to_prefix)
  then show ?thesis by (simp add: filterDir_def join_def)
qed

lemma go_Dir_cases:
  assumes "f \<in> set (go entry p (Dir es))"
  obtains part c where "filterDir entry" and "part \<in> set (readdir es)"
    and "map_of es part = Some c" and "f \<in> set (go (join entry part) (p @ [part]) c)"
  using assms by (auto split: if_splits option.splits) metis

lemma go_prefix: "f \<in> set (go entry p n) \<Longrightarrow> prefix p f"
proof (induction entry p n arbitrary: f rule: go.induct)
  case (1 entry p c)
  then show ?case by simp
next
  case (2 entry p es)
  from "2.prems" obtain part c where "part \<in> set (readdir es)" and "map_of es part = Some c"
    and "f \<in> set (go (join entry part) (p @ [part]) c)" and f: "filterDir entry"
    by (rule go_Dir_cases)
  with "2.IH" have "prefix (p @ [part]) f" by blast
  then show ?case by (rule append_prefixD)
qed

lemma go_root: "f \<in> set (go entry p n) \<Longrightarrow> f \<noteq> p \<Longrightarrow> filterDir entry"
  by (cases n) (auto split: if_splits)

lemma go_filter:
  "f \<in> set (go entry p n) \<Longrightarrow> strict_prefix p q \<Longrightarrow> strict_prefix q f \<Longrightarrow>
     \<not> suffix ''.git'' (last q)"
proof (induction entry p n arbitrary: f rule: go.induct)
  case (1 entry p c)
  then show ?case by (auto simp: strict_prefix_def)
next
  case (2 entry p es)
  from "2.prems"(1) obtain part c where part: "part \<in> set (readdir es)"
    and c: "map_of es part = Some c"
    and f: "f \<in> set (go (join entry part) (p @ [part]) c)" and e: "filterDir entry"
    by (rule go_Dir_cases)
  from f have pf: "prefix (p @ [part]) f" by (rule go_prefix)
  from "2.prems"(2) obtain r where q: "q = p @ r" and "r \<noteq> []"
    by (auto simp: strict_prefix_def prefix_def)
  from pf obtain t where t: "f = p @ part # t" by (auto simp: prefix_def)
  with q "2.prems"(3) have "strict_prefix r (part # t)" by (simp add: strict_prefix_def)
  with \<open>r \<noteq> []\<close> have "prefix [part] r"
    by (cases r) (auto simp: strict_prefix_def)
  with q have pq: "prefix (p @ [part]) q" by simp
  show ?case
  proof (cases "q = p @ [part]")
    case True
    with "2.prems"(3) have "f \<noteq> p @ [part]" by (auto simp: strict_prefix_def)
    with f have "filterDir (join entry part)" by (rule go_root)
    with True show ?thesis by (simp add: filterDir_join)
  next
    case False
    with pq have "strict_prefix (p @ [part]) q" by (simp add: strict_prefix_def)
    with "2.IH" [OF _ part c f] e "2.prems"(3) show ?thesis by simp
  qed
qed

lemma go_file:
  "f \<in> set (go entry p n) \<Longrightarrow> \<exists>c. lookup n (drop (length p) f) = Some (File c)"
proof (induction entry p n arbitrary: f rule: go.induct)
  case (1 entry p c)
  then show ?case by simp
next
  case (2 entry p es)
  from "2.prems"(1) obtain part c where part: "part \<in> set (readdir es)"
    and c: "map_of es part = Some c"
    and f: "f \<in> set (go (join entry part) (p @ [part]) c)" and e: "filterDir entry"
    by (rule go_Dir_cases)
  from f have "prefix (p @ [part]) f" by (rule go_prefix)
  then obtain t where t: "f = p @ part # t" by (auto simp: prefix_def)
  from "2.IH" [OF _ part c f] e
  obtain d where "lookup c (drop (length (p @ [part])) f) = Some (File d)"
    by auto
  with t c show ?case by simp
qed

text \<open>
  The root of the walk is left when the string passed for it ends with \<^verbatim>\<open>.git\<close>, and is
  walked when the same directory is passed with a trailing separator.
\<close>

lemma walk_root_pruned:
  "lookup fs source = Some (Dir es) \<Longrightarrow> suffix ''.git'' spelling \<Longrightarrow>
     walk E fs spelling source = Inr []"
  by (simp add: walk_def stat_def filterDir_def)

lemma walk_root_as_passed:
  "walk test_env fs_templates ''/tpl/.git'' [''tpl'', ''.git''] = Inr [] \<and>
   walk test_env fs_templates ''/tpl/.git/'' [''tpl'', ''.git''] =
     Inr [[''tpl'', ''.git'', ''HEAD'']]"
  by code_simp

lemma job_cases:
  assumes "job E source dest data opts f fs = Inr (r, fs')"
  obtains (written) str out fs1 where "readFile fs f = Inr str" and "content E data str = Inr out"
      and "mkdirp fs (dirname (destFilepath source dest f)) = Inr fs1"
      and "writeFile fs1 (destFilepath source dest f) out (if overwrite opts then W else WX) = Inr fs'"
      and "r = Some (destFilepath source dest f)"
  | (skipped) str out where "readFile fs f = Inr str" and "content E data str = Inr out"
      and "mkdirp fs (dirname (destFilepath source dest f)) = Inr fs'"
      and "\<not> overwrite opts" and "lookup fs' (destFilepath source dest f) \<noteq> None"
      and "r = None"
proof -
  from assms obtain str where str: "readFile fs f = Inr str"
    by (auto simp: job_def split: sum.splits)
  with assms obtain out where out: "content E data str = Inr out"
    by (auto simp: job_def split: sum.splits)
  with assms str obtain fs1 where fs1: "mkdirp fs (dirname (destFilepath source dest f)) = Inr fs1"
    by (auto simp: job_def split: sum.splits)
  show thesis
  proof (cases "writeFile fs1 (destFilepath source dest f) out (if overwrite opts then W else WX)")
    case (Inr fs2)
    with assms str out fs1 have "fs' = fs2" and "r = Some (destFilepath source dest f)"
      by (simp_all add: job_def)
    with str out fs1 Inr show thesis by (auto intro: written)
  next
    case (Inl e)
    with assms str out fs1 have e: "e = EEXIST" and "fs' = fs1" and "r = None"
      by (auto simp: job_def split: if_splits)
    moreover from Inl e have "\<not> overwrite opts" and "lookup fs1 (destFilepath source dest f) \<noteq> None"
      by (auto simp: writeFile_EEXIST split: if_splits)
    ultimately show thesis using str out fs1 by (auto intro: skipped)
  qed
qed

lemma job_file:
  assumes "job E source dest data opts f fs = Inr (r, fs')"
    and "q \<noteq> destFilepath source dest f"
  shows "lookup fs' q = Some (File c) \<longleftrightarrow> lookup fs q = Some (File c)"
  using assms(1)
proof (cases rule: job_cases)
  case (written str out fs1)
  with assms(2) show ?thesis by (simp add: mkdirp_file writeFile_file)
next
  case (skipped str out)
  then show ?thesis by (simp add: mkdirp_file)
qed

lemma job_dir:
  assumes "job E source dest data opts f fs = Inr (r, fs')"
    and "lookup fs q = Some (Dir ds)"
  shows "\<exists>ds'. lookup fs' q = Some (Dir ds')"
  using assms(1)
proof (cases rule: job_cases)
  case (written str out fs1)
  with assms(2) show ?thesis by (meson mkdirp_dir writeFile_dir)
next
  case (skipped str out)
  with assms(2) show ?thesis by (meson mkdirp_dir)
qed

lemma job_dest:
  assumes "job E source dest data opts f fs = Inr (r, fs')"
  shows "lookup fs' (destFilepath source dest f) \<noteq> None"
  using assms by (cases rule: job_cases) (simp_all add: writeFile_at)

lemma job_exists:
  assumes "job E source dest data opts f fs = Inr (r, fs')"
    and "lookup fs q \<noteq> None"
  shows "lookup fs' q \<noteq> None"
proof (cases "q = destFilepath source dest f")
  case True
  with assms(1) show ?thesis by (simp add: job_dest)
next
  case False
  from assms(2) obtain n where n: "lookup fs q = Some n" by auto
  show ?thesis
  proof (cases n)
    case (File c)
    with n False assms(1) job_file [of E source dest data opts f fs r fs' q c]
    show ?thesis by simp
  next
    case (Dir ds)
    with n assms(1) job_dir [of E source dest data opts f fs r fs' q ds] show ?thesis by auto
  qed
qed

lemma prefix_butlast: "\<not> prefix q p \<Longrightarrow> \<not> prefix q (butlast p)"
  by (metis prefix_order.trans prefixeq_butlast)

lemma job_frame:
  assumes "job E source dest data opts f fs = Inr (r, fs')"
    and "\<not> prefix q (destFilepath source dest f)"
  shows "lookup fs' q = lookup fs q"
  using assms(1)
proof (cases rule: job_cases)
  case (written str out fs1)
  with assms(2) show ?thesis
    by (simp add: mkdirp_frame writeFile_frame dirname_def prefix_butlast)
next
  case (skipped str out)
  with assms(2) show ?thesis
    by (simp add: mkdirp_frame dirname_def prefix_butlast)
qed

lemma job_overwrite:
  assumes "job E source dest data opts f fs = Inr (r, fs')" and "overwrite opts"
  shows "r = Some (destFilepath source dest f) \<and>
         (\<exists>str out. readFile fs f = Inr str \<and> content E data str = Inr out \<and>
            lookup fs' (destFilepath source dest f) = Some (File out))"
  using assms by (cases rule: job_cases) (auto simp: writeFile_at)

lemma job_read:
  assumes "job E source dest data opts f fs = Inr (r, fs')"
  shows "\<exists>str out. readFile fs f = Inr str \<and> content E data str = Inr out"
  using assms by (cases rule: job_cases) auto

lemma job_result:
  assumes "job E source dest data opts f fs = Inr (r, fs')"
  shows "r = None \<or> r = Some (destFilepath source dest f)"
  using assms by (cases rule: job_cases) auto

lemma lookup_parent:
  "lookup n p = Some m \<Longrightarrow> p \<noteq> [] \<Longrightarrow> \<exists>ds. lookup n (butlast p) = Some (Dir ds)"
proof (induction n p rule: lookup.induct)
  case (3 es x xs)
  then show ?case by (cases xs) (auto split: option.splits)
qed auto

lemma job_noop:
  assumes "\<not> overwrite opts" and "lookup fs (destFilepath source dest f) \<noteq> None"
    and "destFilepath source dest f = [] \<longrightarrow> isDirectory fs"
    and "readFile fs f = Inr str" and "content E data str = Inr out"
  shows "job E source dest data opts f fs = Inr (None, fs)"
proof -
  have "\<exists>ds. lookup fs (dirname (destFilepath source dest f)) = Some (Dir ds)"
  proof (cases "destFilepath source dest f = []")
    case True
    with assms(3) show ?thesis by (cases fs) (simp_all add: dirname_def)
  next
    case False
    with assms(2) show ?thesis unfolding dirname_def by (auto intro: lookup_parent)
  qed
  then have "mkdirp fs (dirname (destFilepath source dest f)) = Inr fs"
    by (auto intro: mkdirp_existing)
  moreover from assms(1,2) have "writeFile fs (destFilepath source dest f) out
      (if overwrite opts then W else WX) = Inl EEXIST"
    by (simp add: writeFile_EEXIST)
  ultimately show ?thesis using assms(4,5) by (simp add: job_def)
qed

lemma jobs_Cons_cases:
  assumes "jobs E source dest data opts (f # queue) fs = Inr (rs, fs')"
  obtains r fs1 rs' where "job E source dest data opts f fs = Inr (r, fs1)"
    and "jobs E source dest data opts queue fs1 = Inr (rs', fs')" and "rs = r # rs'"
  using assms by (auto split: sum.splits prod.splits)

lemma jobs_file:
  "jobs E source dest data opts queue fs = Inr (rs, fs') \<Longrightarrow>
   q \<notin> destFilepath source dest ` set queue \<Longrightarrow>
     lookup fs' q = Some (File c) \<longleftrightarrow> lookup fs q = Some (File c)"
proof (induction queue arbitrary: fs rs)
  case Nil
  then show ?case by simp
next
  case (Cons f queue)
  from Cons.prems(1) obtain r fs1 rs' where j: "job E source dest data opts f fs = Inr (r, fs1)"
    and js: "jobs E source dest data opts queue fs1 = Inr (rs', fs')"
    by (rule jobs_Cons_cases)
  from Cons.prems(2) have "q \<noteq> destFilepath source dest f"
    and "q \<notin> destFilepath source dest ` set queue"
    by auto
  with j js Cons.IH [of fs1 rs'] show ?case by (simp add: job_file)
qed

lemma jobs_dir:
  "jobs E source dest data opts queue fs = Inr (rs, fs') \<Longrightarrow> lookup fs q = Some (Dir ds) \<Longrightarrow>
     \<exists>ds'. lookup fs' q = Some (Dir ds')"
proof (induction queue arbitrary: fs rs ds)
  case Nil
  then show ?case by simp
next
  case (Cons f queue)
  from Cons.prems(1) obtain r fs1 rs' where j: "job E source dest data opts f fs = Inr (r, fs1)"
    and js: "jobs E source dest data opts queue fs1 = Inr (rs', fs')"
    by (rule jobs_Cons_cases)
  from job_dir [OF j Cons.prems(2)] obtain ds1 where "lookup fs1 q = Some (Dir ds1)" ..
  with js show ?case by (rule Cons.IH)
qed

lemma jobs_frame:
  "jobs E source dest data opts queue fs = Inr (rs, fs') \<Longrightarrow>
   \<forall>f\<in>set queue. \<not> prefix q (destFilepath source dest f) \<Longrightarrow> lookup fs' q = lookup fs q"
proof (induction queue arbitrary: fs rs)
  case Nil
  then show ?case by simp
next
  case (Cons f queue)
  from Cons.prems(1) obtain r fs1 rs' where j: "job E source dest data opts f fs = Inr (r, fs1)"
    and js: "jobs E source dest data opts queue fs1 = Inr (rs', fs')"
    by (rule jobs_Cons_cases)
  from j Cons.prems(2) have "lookup fs1 q = lookup fs q" by (simp add: job_frame)
  moreover from js Cons.prems(2) have "lookup fs' q = lookup fs1 q" by (simp add: Cons.IH)
  ultimately show ?case by simp
qed

lemma jobs_results:
  "jobs E source dest data opts queue fs = Inr (rs, fs') \<Longrightarrow>
     set (compact rs) \<subseteq> destFilepath source dest ` set queue"
proof (induction queue arbitrary: fs rs)
  case Nil
  then show ?case by simp
next
  case (Cons f queue)
  from Cons.prems(1) obtain r fs1 rs' where j: "job E source dest data opts f fs = Inr (r, fs1)"
    and js: "jobs E source dest data opts queue fs1 = Inr (rs', fs')" and rs: "rs = r # rs'"
    by (rule jobs_Cons_cases)
  from js have "set (compact rs') \<subseteq> destFilepath source dest ` set queue" by (rule Cons.IH)
  with job_result [OF j] rs show ?case by auto
qed

lemma jobs_exists:
  "jobs E source dest data opts queue fs = Inr (rs, fs') \<Longrightarrow> lookup fs q \<noteq> None \<Longrightarrow>
     lookup fs' q \<noteq> None"
proof (induction queue arbitrary: fs rs)
  case Nil
  then show ?case by simp
next
  case (Cons f queue)
  from Cons.prems(1) obtain r fs1 rs' where j: "job E source dest data opts f fs = Inr (r, fs1)"
    and js: "jobs E source dest data opts queue fs1 = Inr (rs', fs')"
    by (rule jobs_Cons_cases)
  from j Cons.prems(2) have "lookup fs1 q \<noteq> None" by (rule job_exists)
  with js show ?case by (rule Cons.IH)
qed

lemma jobs_dest:
  "jobs E source dest data opts queue fs = Inr (rs, fs') \<Longrightarrow> f \<in> set queue \<Longrightarrow>
     lookup fs' (destFilepath source dest f) \<noteq> None"
proof (induction queue arbitrary: fs rs)
  case Nil
  then show ?case by simp
next
  case (Cons g queue)
  from Cons.prems(1) obtain r fs1 rs' where j: "job E source dest data opts g fs = Inr (r, fs1)"
    and js: "jobs E source dest data opts queue fs1 = Inr (rs', fs')"
    by (rule jobs_Cons_cases)
  show ?case
  proof (cases "f \<in> set queue")
    case True
    with js show ?thesis by (rule Cons.IH)
  next
    case False
    with Cons.prems(2) have "f = g" by simp
    with j have "lookup fs1 (destFilepath source dest f) \<noteq> None" by (simp add: job_dest)
    with js show ?thesis by (rule jobs_exists)
  qed
qed

lemma apart_dest:
  "\<not> prefix source dest \<Longrightarrow> \<not> prefix dest source \<Longrightarrow> \<not> prefix source (destFilepath source dest f)"
  unfolding destFilepath_def by (metis prefix_append prefixI prefix_same_cases)

lemma readFile_below:
  "lookup fs' source = lookup fs source \<Longrightarrow> prefix source f \<Longrightarrow> readFile fs' f = readFile fs f"
  by (auto simp: readFile_def prefix_def lookup_append)

lemma destFilepath_inj:
  "prefix source f \<Longrightarrow> prefix source g \<Longrightarrow>
     destFilepath source dest f = destFilepath source dest g \<Longrightarrow> f = g"
  by (auto simp: destFilepath_def path_relative_def prefix_def)

lemma jobs_read:
  "jobs E source dest data opts queue fs = Inr (rs, fs') \<Longrightarrow>
   \<forall>f\<in>set queue. prefix source f \<and> \<not> prefix source (destFilepath source dest f) \<Longrightarrow>
   f \<in> set queue \<Longrightarrow>
     \<exists>str out. readFile fs f = Inr str \<and> content E data str = Inr out"
proof (induction queue arbitrary: fs rs)
  case Nil
  then show ?case by simp
next
  case (Cons g queue)
  from Cons.prems(1) obtain r fs1 rs' where j: "job E source dest data opts g fs = Inr (r, fs1)"
    and js: "jobs E source dest data opts queue fs1 = Inr (rs', fs')"
    by (rule jobs_Cons_cases)
  show ?case
  proof (cases "f \<in> set queue")
    case True
    from Cons.prems(2)
    have below: "\<forall>f\<in>set queue. prefix source f \<and> \<not> prefix source (destFilepath source dest f)"
      and clear: "\<not> prefix source (destFilepath source dest g)"
      by simp_all
    from js below True
    have "\<exists>str out. readFile fs1 f = Inr str \<and> content E data str = Inr out"
      by (rule Cons.IH)
    moreover have "readFile fs1 f = readFile fs f"
    proof (rule readFile_below)
      from j clear show "lookup fs1 source = lookup fs source" by (rule job_frame)
      from below True show "prefix source f" by simp
    qed
    ultimately show ?thesis by simp
  next
    case False
    with Cons.prems(3) have "f = g" by simp
    with job_read [OF j] show ?thesis by simp
  qed
qed

lemma jobs_overwrite:
  assumes "overwrite opts"
  shows "jobs E source dest data opts queue fs = Inr (rs, fs') \<Longrightarrow>
     \<forall>f\<in>set queue. prefix source f \<and> \<not> prefix source (destFilepath source dest f) \<Longrightarrow>
     f \<in> set queue \<Longrightarrow>
     \<exists>str out. readFile fs f = Inr str \<and> content E data str = Inr out \<and>
        lookup fs' (destFilepath source dest f) = Some (File out) \<and>
        destFilepath source dest f \<in> set (compact rs)"
proof (induction queue arbitrary: fs rs)
  case Nil
  then show ?case by simp
next
  case (Cons g queue)
  from Cons.prems(1) obtain r fs1 rs' where j: "job E source dest data opts g fs = Inr (r, fs1)"
    and js: "jobs E source dest data opts queue fs1 = Inr (rs', fs')" and rs: "rs = r # rs'"
    by (rule jobs_Cons_cases)
  from job_overwrite [OF j assms]
  obtain str out where r: "r = Some (destFilepath source dest g)"
    and str: "readFile fs g = Inr str" and out: "content E data str = Inr out"
    and l: "lookup fs1 (destFilepath source dest g) = Some (File out)"
    by blast
  show ?case
  proof (cases "f \<in> set queue")
    case True
    from Cons.prems(2)
    have below: "\<forall>f\<in>set queue. prefix source f \<and> \<not> prefix source (destFilepath source dest f)"
      and clear: "\<not> prefix source (destFilepath source dest g)"
      by simp_all
    from Cons.IH [OF js below True]
    obtain str' out' where "readFile fs1 f = Inr str'"
      and "content E data str' = Inr out'"
      and "lookup fs' (destFilepath source dest f) = Some (File out')"
      and "destFilepath source dest f \<in> set (compact rs')"
      by blast
    moreover have "readFile fs1 f = readFile fs f"
    proof (rule readFile_below)
      from j clear show "lookup fs1 source = lookup fs source" by (rule job_frame)
      from below True show "prefix source f" by simp
    qed
    ultimately show ?thesis using rs r by auto
  next
    case False
    with Cons.prems(3) have fg: "f = g" by simp
    with False Cons.prems(2) have "destFilepath source dest g \<notin> destFilepath source dest ` set queue"
      by (auto dest: destFilepath_inj)
    with js l have "lookup fs' (destFilepath source dest g) = Some (File out)"
      by (simp add: jobs_file)
    with fg str out rs r show ?thesis by simp
  qed
qed

lemma jobs_noop:
  assumes "\<not> overwrite opts" and "isDirectory fs"
  shows "\<forall>f\<in>set queue. lookup fs (destFilepath source dest f) \<noteq> None \<and>
       (\<exists>str out. readFile fs f = Inr str \<and> content E data str = Inr out) \<Longrightarrow>
     jobs E source dest data opts queue fs = Inr (map (\<lambda>f. None) queue, fs)"
proof (induction queue)
  case Nil
  then show ?case by simp
next
  case (Cons f queue)
  then obtain str out where "lookup fs (destFilepath source dest f) \<noteq> None"
    and "readFile fs f = Inr str" and "content E data str = Inr out"
    by auto
  with assms have "job E source dest data opts f fs = Inr (None, fs)"
    by (simp add: job_noop)
  with Cons show ?case by simp
qed

lemma compact_None: "compact (map (\<lambda>f. None) queue) = []"
  by (induction queue) simp_all

section \<open>Properties of generate\<close>

lemma generate_cases:
  assumes "generate E spelling source dest data opts fs = Inr (written, fs')"
  obtains fs1 n rs where "mkdirp fs dest = Inr fs1" and "lookup fs1 source = Some n"
    and "jobs E source dest data opts
           (filter (\<lambda>p. \<not> isBinaryPath E p) (go spelling source n)) fs1 = Inr (rs, fs')"
    and "written = compact rs"
  using assms
  by (auto simp: generate_def walk_def stat_def split: sum.splits option.splits prod.splits)

lemma lookup_isDirectory: "lookup n p = Some (Dir ds) \<Longrightarrow> isDirectory n"
  by (cases n; cases p) auto

lemma go_pruned:
  assumes "f \<in> set (go spelling source n)" and "x \<in> set (butlast (path_relative source f))"
  shows "\<not> suffix ''.git'' x"
proof -
  from assms(1) have "prefix source f" by (rule go_prefix)
  then obtain rel where f: "f = source @ rel" by (auto simp: prefix_def)
  with assms(2) have "x \<in> set (butlast rel)" by (simp add: path_relative_def)
  then obtain ys zs where b: "butlast rel = ys @ x # zs" by (auto dest: split_list)
  then have "rel \<noteq> []" by auto
  with b have rel: "rel = ys @ x # zs @ [last rel]"
    by (metis append.assoc append_Cons append_butlast_last_id)
  have "\<not> suffix ''.git'' (last (source @ ys @ [x]))"
  proof (rule go_filter [OF assms(1)])
    show "strict_prefix source (source @ ys @ [x])" by (simp add: strict_prefix_def)
    show "strict_prefix (source @ ys @ [x]) f"
      unfolding f by (subst rel) (simp add: strict_prefix_def)
  qed
  then show ?thesis by simp
qed

lemma generate_untouched:
  assumes gen: "generate E spelling source dest data opts fs = Inr (written, fs')"
    and below: "prefix source f"
    and skip: "\<And>n. f \<notin> set (filter (\<lambda>p. \<not> isBinaryPath E p) (go spelling source n))"
  shows "destFilepath source dest f \<notin> set written"
    and "lookup fs' (destFilepath source dest f) = Some (File c) \<longleftrightarrow>
         lookup fs (destFilepath source dest f) = Some (File c)"
proof -
  from gen obtain fs1 n rs where m: "mkdirp fs dest = Inr fs1"
    and js: "jobs E source dest data opts
               (filter (\<lambda>p. \<not> isBinaryPath E p) (go spelling source n)) fs1 = Inr (rs, fs')"
    and w: "written = compact rs"
    by (rule generate_cases)
  let ?queue = "filter (\<lambda>p. \<not> isBinaryPath E p) (go spelling source n)"
  have "\<forall>g\<in>set ?queue. prefix source g" by (auto dest: go_prefix)
  with below skip [of n]
  have out: "destFilepath source dest f \<notin> destFilepath source dest ` set ?queue"
    by (metis (no_types, lifting) destFilepath_inj image_iff)
  with jobs_results [OF js] w show "destFilepath source dest f \<notin> set written" by auto
  from js out have "lookup fs' (destFilepath source dest f) = Some (File c) \<longleftrightarrow>
      lookup fs1 (destFilepath source dest f) = Some (File c)"
    by (rule jobs_file)
  with m show "lookup fs' (destFilepath source dest f) = Some (File c) \<longleftrightarrow>
      lookup fs (destFilepath source dest f) = Some (File c)"
    by (simp add: mkdirp_file)
qed

lemma generate_written:
  assumes gen: "generate E spelling source dest data opts fs = Inr (written, fs')"
    and ow: "overwrite opts"
    and outside: "\<not> prefix source dest"
    and src: "lookup fs source = Some n"
    and clear: "\<forall>g\<in>set (go spelling source n). \<not> prefix source (destFilepath source dest g)"
    and f: "f \<in> set (go spelling source n)"
    and nb: "\<not> isBinaryPath E f" and rd: "readFile fs f = Inr str"
  shows "\<exists>out. content E data str = Inr out \<and>
           lookup fs' (destFilepath source dest f) = Some (File out) \<and>
           destFilepath source dest f \<in> set written"
proof -
  from gen obtain fs1 n' rs where m: "mkdirp fs dest = Inr fs1"
    and n': "lookup fs1 source = Some n'"
    and js: "jobs E source dest data opts
               (filter (\<lambda>p. \<not> isBinaryPath E p) (go spelling source n')) fs1 = Inr (rs, fs')"
    and w: "written = compact rs"
    by (rule generate_cases)
  from m outside have same: "lookup fs1 source = lookup fs source" by (rule mkdirp_frame)
  with n' src have "n' = n" by simp
  let ?queue = "filter (\<lambda>p. \<not> isBinaryPath E p) (go spelling source n)"
  from clear
  have below: "\<forall>g\<in>set ?queue. prefix source g \<and> \<not> prefix source (destFilepath source dest g)"
    by (auto dest: go_prefix)
  from f nb have inq: "f \<in> set ?queue" by simp
  from js have js': "jobs E source dest data opts ?queue fs1 = Inr (rs, fs')"
    unfolding \<open>n' = n\<close> .
  from jobs_overwrite [OF ow js' below inq]
  obtain str' out where "readFile fs1 f = Inr str'" and "content E data str' = Inr out"
    and "lookup fs' (destFilepath source dest f) = Some (File out)"
    and "destFilepath source dest f \<in> set (compact rs)"
    by blast
  moreover from same below inq have "readFile fs1 f = readFile fs f"
    by (simp add: readFile_below)
  ultimately show ?thesis using rd w by auto
qed

lemma generate_dest:
  assumes "generate E spelling source dest data opts fs = Inr (written, fs')"
  shows "\<exists>es. lookup fs' dest = Some (Dir es)"
proof -
  from assms obtain fs1 n rs where m: "mkdirp fs dest = Inr fs1"
    and js: "jobs E source dest data opts
               (filter (\<lambda>p. \<not> isBinaryPath E p) (go spelling source n)) fs1 = Inr (rs, fs')"
    by (rule generate_cases)
  from mkdirp_isdir [OF m] obtain es where "lookup fs1 dest = Some (Dir es)" ..
  with js show ?thesis by (rule jobs_dir)
qed



lemma job_written:
  assumes "job E source dest data opts f fs = Inr (Some p, fs')"
  shows "p = destFilepath source dest f \<and>
         (\<exists>str out. readFile fs f = Inr str \<and> content E data str = Inr out \<and>
            lookup fs' p = Some (File out))"
  using assms by (cases rule: job_cases) (auto simp: writeFile_at)

lemma readFile_File: "lookup fs f = Some (File c) \<Longrightarrow> readFile fs f = Inr (utf8 c)"
  by (simp add: readFile_def)

section \<open>The claims about download\<close>

text \<open>
  C1, as the spec states it: a target that exists and is not a directory makes \<^verbatim>\<open>download\<close>
  fail at once with a conflict error, nothing deleted and no clone attempted, offline or
  not.  The program does otherwise.  With the cache holding a stray file at the target of
  \<^verbatim>\<open>My Repo!\<close>, the online call removes the file, clones and resolves; the offline call
  rejects with \<^verbatim>\<open>No cache of ...\<close>, not with \<^verbatim>\<open>File exists at ...\<close>.
\<close>

theorem download_conflict_counterexample:
  "lookup fs_conflict (target test_env ''My Repo!'' defaults) = Some (File ''stray'') \<and>
   download test_env ''My Repo!'' defaults fs_conflict =
     (Dir [(''home'', Dir [(''.cache'', Dir [(''.egad-templates'',
        Dir [(''my-repo'', Dir [(''.git'', Dir [])])])])])],
      Inr [''home'', ''.cache'', ''.egad-templates'', ''my-repo'']) \<and>
   download test_env ''My Repo!'' (defaults\<lparr>offline := True\<rparr>) fs_conflict =
     (fs_conflict, Inl (NoCache ''My Repo!'' [''home'', ''.cache'', ''.egad-templates'', ''my-repo'']))"
  by code_simp

text \<open>
  C1, amended: when the target is a file, the error \<^verbatim>\<open>File exists at ...\<close> is caught by the
  program's own handler and never reaches the caller.  Offline, the call rejects with
  \<^verbatim>\<open>No cache of ...\<close>, the file system changed by nothing but the creation of the cache
  root, and the file is still there.  Online, the file is removed and a clone into the
  target is attempted, whose outcome is the outcome of the call.
\<close>

theorem download_not_a_directory:
  assumes "lookup fs (target E url opts) = Some (File c)"
  shows "(offline opts \<longrightarrow>
            download E url opts fs =
              (case mkdirp fs (cachedir E []) of Inl e \<Rightarrow> fs | Inr fs1 \<Rightarrow> fs1,
               Inl (NoCache url (target E url opts))) \<and>
            lookup (fst (download E url opts fs)) (target E url opts) = Some (File c)) \<and>
         (\<not> offline opts \<longrightarrow> target E url opts \<noteq> [] \<longrightarrow>
            (\<exists>fs2. rimraf (case mkdirp fs (cachedir E []) of Inl e \<Rightarrow> fs | Inr fs1 \<Rightarrow> fs1)
                      (target E url opts) = (fs2, None) \<and>
                   lookup fs2 (target E url opts) = None \<and>
                   download E url opts fs =
                     (case clone E url (target E url opts) fs2 of
                        (fs3, Some err) \<Rightarrow> (fs3, Inl (Git err))
                      | (fs3, None) \<Rightarrow> (fs3, Inr (target E url opts)))))"
proof -
  let ?fs1 = "case mkdirp fs (cachedir E []) of Inl e \<Rightarrow> fs | Inr fs1 \<Rightarrow> fs1"
  have d: "download E url opts fs = fallback E url opts ?fs1"
    using assms by (rule download_file)
  have l: "lookup ?fs1 (target E url opts) = Some (File c)"
    using assms by (cases "mkdirp fs (cachedir E [])") (simp_all add: mkdirp_file)
  show ?thesis
  proof (intro conjI impI)
    assume "offline opts"
    with d show "download E url opts fs = (?fs1, Inl (NoCache url (target E url opts)))"
      by (simp add: fallback_def)
    with l show "lookup (fst (download E url opts fs)) (target E url opts) = Some (File c)"
      by simp
  next
    assume on: "\<not> offline opts" and ne: "target E url opts \<noteq> []"
    from l ne obtain fs2 where r: "rimraf ?fs1 (target E url opts) = (fs2, None)"
      and g: "lookup fs2 (target E url opts) = None"
      using rimraf_removes [of ?fs1 "target E url opts"] by auto
    from d on r have "download E url opts fs =
        (case clone E url (target E url opts) fs2 of
           (fs3, Some err) \<Rightarrow> (fs3, Inl (Git err))
         | (fs3, None) \<Rightarrow> (fs3, Inr (target E url opts)))"
      by (simp add: fallback_def split: prod.splits option.splits)
    with r g show "\<exists>fs2. rimraf ?fs1 (target E url opts) = (fs2, None) \<and>
        lookup fs2 (target E url opts) = None \<and>
        download E url opts fs =
          (case clone E url (target E url opts) fs2 of
             (fs3, Some err) \<Rightarrow> (fs3, Inl (Git err))
           | (fs3, None) \<Rightarrow> (fs3, Inr (target E url opts)))"
      by blast
  qed
qed

text \<open>C1, amended, on the stray file, offline and online.\<close>

theorem download_not_a_directory_witness:
  "lookup fs_conflict (target test_env ''My Repo!'' (defaults\<lparr>offline := True\<rparr>)) =
     Some (File ''stray'') \<and>
   offline (defaults\<lparr>offline := True\<rparr>) \<and>
   download test_env ''My Repo!'' (defaults\<lparr>offline := True\<rparr>) fs_conflict =
     (fs_conflict,
      Inl (NoCache ''My Repo!'' [''home'', ''.cache'', ''.egad-templates'', ''my-repo''])) \<and>
   lookup (fst (download test_env ''My Repo!'' (defaults\<lparr>offline := True\<rparr>) fs_conflict))
     (target test_env ''My Repo!'' (defaults\<lparr>offline := True\<rparr>)) = Some (File ''stray'') \<and>
   lookup fs_conflict (target test_env ''My Repo!'' defaults) = Some (File ''stray'') \<and>
   \<not> offline defaults \<and>
   target test_env ''My Repo!'' defaults \<noteq> [] \<and>
   download test_env ''My Repo!'' defaults fs_conflict =
     (Dir [(''home'', Dir [(''.cache'', Dir [(''.egad-templates'',
        Dir [(''my-repo'', Dir [(''.git'', Dir [])])])])])],
      Inr [''home'', ''.cache'', ''.egad-templates'', ''my-repo''])"
proof -
  let ?off = "defaults\<lparr>offline := True\<rparr>"
  let ?tgt = "[''home'', ''.cache'', ''.egad-templates'', ''my-repo'']"
  let ?gone = "Dir [(''home'', Dir [(''.cache'', Dir [(''.egad-templates'', Dir [])])])]"
  have h: "lookup fs_conflict (target test_env ''My Repo!'' ?off) = Some (File ''stray'')"
    by code_simp
  have o: "offline ?off" by code_simp
  have m: "(case mkdirp fs_conflict (cachedir test_env []) of Inl e \<Rightarrow> fs_conflict
            | Inr fs1 \<Rightarrow> fs1) = fs_conflict"
    by code_simp
  have t: "target test_env ''My Repo!'' ?off = ?tgt"
    by code_simp
  from download_not_a_directory [OF h] o
  have "download test_env ''My Repo!'' ?off fs_conflict =
          (case mkdirp fs_conflict (cachedir test_env []) of Inl e \<Rightarrow> fs_conflict
           | Inr fs1 \<Rightarrow> fs1,
           Inl (NoCache ''My Repo!'' (target test_env ''My Repo!'' ?off)))"
    and "lookup (fst (download test_env ''My Repo!'' ?off fs_conflict))
           (target test_env ''My Repo!'' ?off) = Some (File ''stray'')"
    by blast+
  with h o have offline_case:
    "lookup fs_conflict (target test_env ''My Repo!'' ?off) = Some (File ''stray'') \<and>
     offline ?off \<and>
     download test_env ''My Repo!'' ?off fs_conflict = (fs_conflict, Inl (NoCache ''My Repo!'' ?tgt)) \<and>
     lookup (fst (download test_env ''My Repo!'' ?off fs_conflict))
       (target test_env ''My Repo!'' ?off) = Some (File ''stray'')"
    unfolding m t by simp
  have h': "lookup fs_conflict (target test_env ''My Repo!'' defaults) = Some (File ''stray'')"
    by code_simp
  have o': "\<not> offline defaults" by code_simp
  have t': "target test_env ''My Repo!'' defaults = ?tgt"
    by code_simp
  have r: "rimraf fs_conflict ?tgt = (?gone, None)"
    by code_simp
  have c: "(case clone test_env ''My Repo!'' ?tgt ?gone of
              (fs3, Some err) \<Rightarrow> (fs3, Inl (Git err))
            | (fs3, None) \<Rightarrow> (fs3, Inr ?tgt)) =
           (Dir [(''home'', Dir [(''.cache'', Dir [(''.egad-templates'',
              Dir [(''my-repo'', Dir [(''.git'', Dir [])])])])])], Inr ?tgt)"
    by code_simp
  from download_not_a_directory [OF h'] o' t'
  obtain fs2 where "rimraf (case mkdirp fs_conflict (cachedir test_env []) of
                              Inl e \<Rightarrow> fs_conflict | Inr fs1 \<Rightarrow> fs1) ?tgt = (fs2, None)"
    and d: "download test_env ''My Repo!'' defaults fs_conflict =
              (case clone test_env ''My Repo!'' ?tgt fs2 of
                 (fs3, Some err) \<Rightarrow> (fs3, Inl (Git err))
               | (fs3, None) \<Rightarrow> (fs3, Inr ?tgt))"
    by auto
  then have "fs2 = ?gone" unfolding m r by simp
  with d c have "download test_env ''My Repo!'' defaults fs_conflict =
      (Dir [(''home'', Dir [(''.cache'', Dir [(''.egad-templates'',
         Dir [(''my-repo'', Dir [(''.git'', Dir [])])])])])], Inr ?tgt)"
    by simp
  with h' o' t' offline_case show ?thesis by simp
qed



section \<open>The claims about generate\<close>

text \<open>
  C3: after a call of \<^verbatim>\<open>generate\<close> that resolved, a second call on the same trees with
  \<^verbatim>\<open>overwrite: false\<close> resolves with the empty list and leaves the file system as the
  first call left it: nothing is written, and every file keeps its content.  The first
  call has written nothing into its source tree: the destination is not inside the source
  tree, and no file of the walk has its destination path there, which is so for trees
  that do not contain one another.  (A first call that writes into its source tree
  leaves a different source tree to the second call.)
\<close>

theorem generate_twice:
  assumes gen: "generate E spelling source dest data opts fs = Inr (written, fs1)"
    and outside: "\<not> prefix source dest"
    and src: "lookup fs source = Some n'"
    and clear: "\<forall>g\<in>set (go spelling source n'). \<not> prefix source (destFilepath source dest g)"
  shows "generate E spelling source dest data (opts\<lparr>overwrite := False\<rparr>) fs1 = Inr ([], fs1)"
proof -
  from gen obtain fs0 n rs where m: "mkdirp fs dest = Inr fs0"
    and n: "lookup fs0 source = Some n"
    and js: "jobs E source dest data opts
               (filter (\<lambda>p. \<not> isBinaryPath E p) (go spelling source n)) fs0 = Inr (rs, fs1)"
    by (rule generate_cases)
  from m outside have "lookup fs0 source = lookup fs source" by (rule mkdirp_frame)
  with n src have "n' = n" by simp
  let ?queue = "filter (\<lambda>p. \<not> isBinaryPath E p) (go spelling source n)"
  let ?opts = "opts\<lparr>overwrite := False\<rparr>"
  from clear
  have below: "\<forall>g\<in>set ?queue. prefix source g \<and> \<not> prefix source (destFilepath source dest g)"
    unfolding \<open>n' = n\<close> by (auto dest: go_prefix)
  from generate_dest [OF gen] obtain es where d: "lookup fs1 dest = Some (Dir es)" ..
  then have m1: "mkdirp fs1 dest = Inr fs1" by (rule mkdirp_existing)
  from js below have same: "lookup fs1 source = lookup fs0 source" by (simp add: jobs_frame)
  with n have w1: "walk E fs1 spelling source = Inr ?queue" by (simp add: walk_def stat_def)
  have "jobs E source dest data ?opts ?queue fs1 = Inr (map (\<lambda>f. None) ?queue, fs1)"
  proof (rule jobs_noop)
    show "\<not> overwrite ?opts" by simp
    from d show "isDirectory fs1" by (rule lookup_isDirectory)
    show "\<forall>f\<in>set ?queue. lookup fs1 (destFilepath source dest f) \<noteq> None \<and>
        (\<exists>str out. readFile fs1 f = Inr str \<and> content E data str = Inr out)"
    proof
      fix f assume f: "f \<in> set ?queue"
      from js f have "lookup fs1 (destFilepath source dest f) \<noteq> None" by (rule jobs_dest)
      moreover from jobs_read [OF js below f]
      have "\<exists>str out. readFile fs0 f = Inr str \<and> content E data str = Inr out" .
      moreover from same below f have "readFile fs1 f = readFile fs0 f"
        by (simp add: readFile_below)
      ultimately show "lookup fs1 (destFilepath source dest f) \<noteq> None \<and>
          (\<exists>str out. readFile fs1 f = Inr str \<and> content E data str = Inr out)"
        by simp
    qed
  qed
  with m1 w1 show ?thesis by (simp add: generate_def compact_None)
qed

text \<open>C3 on the template repository, both calls with \<^verbatim>\<open>overwrite: false\<close>.\<close>

theorem generate_twice_witness:
  "generate test_env ''/tpl'' [''tpl''] [''out''] world (defaults\<lparr>overwrite := False\<rparr>) fs_templates =
     Inr (written_paths, fs_generated) \<and>
   \<not> prefix [''tpl''] [''out''] \<and> \<not> prefix [''out''] [''tpl''] \<and>
   lookup fs_templates [''tpl''] = Some tpl_tree \<and>
   generate test_env ''/tpl'' [''tpl''] [''out''] world (defaults\<lparr>overwrite := False\<rparr>) fs_generated =
     Inr ([], fs_generated)"
proof -
  let ?opts = "defaults\<lparr>overwrite := False\<rparr>"
  have g: "generate test_env ''/tpl'' [''tpl''] [''out''] world ?opts fs_templates =
     Inr (written_paths, fs_generated)"
    by code_simp
  have a: "\<not> prefix [''tpl''] [''out'']" and b: "\<not> prefix [''out''] [''tpl'']"
    by simp_all
  then have cl: "\<forall>g\<in>set (go ''/tpl'' [''tpl''] tpl_tree).
      \<not> prefix [''tpl''] (destFilepath [''tpl''] [''out''] g)"
    by (simp add: apart_dest)
  have n: "lookup fs_templates [''tpl''] = Some tpl_tree" by code_simp
  from generate_twice [OF g a n cl]
  have "generate test_env ''/tpl'' [''tpl''] [''out''] world ?opts fs_generated = Inr ([], fs_generated)"
    by simp
  with g a b n show ?thesis by blast
qed

text \<open>
  C4: a file that is not binary and whose text has a marker is written to its destination
  path as the rendering engine renders the text from the caller's data.  This holds of
  every job that writes, and of a call that resolved under the default \<^verbatim>\<open>overwrite: true\<close>
  and wrote nothing into its source tree.  The text \<^verbatim>\<open>Hello {{name}}\<close> has a marker;
  with an engine that renders it to \<^verbatim>\<open>Hello World\<close> from the data, the destination file
  holds \<^verbatim>\<open>Hello World\<close>.
\<close>

theorem generate_renders:
  "has_marker ''Hello {{name}}'' \<and>
   (job E source dest data opts f fs = Inr (Some p, fs1) \<longrightarrow>
    readFile fs f = Inr str \<longrightarrow> has_marker str \<longrightarrow>
      p = destFilepath source dest f \<and>
      (\<exists>out. render E str data = Inr out \<and> lookup fs1 p = Some (File out))) \<and>
   (generate E spelling source dest data opts fs = Inr (written, fs') \<longrightarrow> overwrite opts \<longrightarrow>
    \<not> prefix source dest \<longrightarrow> lookup fs source = Some n \<longrightarrow>
    (\<forall>g\<in>set (go spelling source n). \<not> prefix source (destFilepath source dest g)) \<longrightarrow>
    f \<in> set (go spelling source n) \<longrightarrow> \<not> isBinaryPath E f \<longrightarrow>
    readFile fs f = Inr str \<longrightarrow> has_marker str \<longrightarrow>
      (\<exists>out. render E str data = Inr out \<and>
         lookup fs' (destFilepath source dest f) = Some (File out) \<and>
         destFilepath source dest f \<in> set written) \<and>
      (str = ''Hello {{name}}'' \<longrightarrow> render E ''Hello {{name}}'' data = Inr ''Hello World'' \<longrightarrow>
         lookup fs' (destFilepath source dest f) = Some (File ''Hello World'')))"
proof (intro conjI impI)
  show "has_marker ''Hello {{name}}''" by code_simp
next
  assume j: "job E source dest data opts f fs = Inr (Some p, fs1)"
    and r: "readFile fs f = Inr str" and m: "has_marker str"
  from job_written [OF j] r m
  show "p = destFilepath source dest f"
    and "\<exists>out. render E str data = Inr out \<and> lookup fs1 p = Some (File out)"
    by (auto simp: content_def split: sum.splits)
next
  assume "generate E spelling source dest data opts fs = Inr (written, fs')" and "overwrite opts"
    and "\<not> prefix source dest" and "lookup fs source = Some n"
    and "\<forall>g\<in>set (go spelling source n). \<not> prefix source (destFilepath source dest g)"
    and "f \<in> set (go spelling source n)" and "\<not> isBinaryPath E f"
    and "readFile fs f = Inr str" and m: "has_marker str"
  from generate_written [OF this(1-8)] m
  show e: "\<exists>out. render E str data = Inr out \<and>
      lookup fs' (destFilepath source dest f) = Some (File out) \<and>
      destFilepath source dest f \<in> set written"
    by (auto simp: content_def split: sum.splits)
  assume "str = ''Hello {{name}}''" and "render E ''Hello {{name}}'' data = Inr ''Hello World''"
  with e show "lookup fs' (destFilepath source dest f) = Some (File ''Hello World'')"
    by auto
qed

text \<open>C4 on the template repository, with the data \<^verbatim>\<open>{name: "World"}\<close>.\<close>

theorem generate_renders_witness:
  "generate test_env ''/tpl'' [''tpl''] [''out''] world defaults fs_templates =
     Inr (written_paths, fs_generated) \<and>
   overwrite defaults \<and> \<not> prefix [''tpl''] [''out''] \<and> \<not> prefix [''out''] [''tpl''] \<and>
   lookup fs_templates [''tpl''] = Some tpl_tree \<and>
   [''tpl'', ''hello.txt''] \<in> set (go ''/tpl'' [''tpl''] tpl_tree) \<and>
   \<not> isBinaryPath test_env [''tpl'', ''hello.txt''] \<and>
   readFile fs_templates [''tpl'', ''hello.txt''] = Inr ''Hello {{name}}'' \<and>
   has_marker ''Hello {{name}}'' \<and>
   render test_env ''Hello {{name}}'' world = Inr ''Hello World'' \<and>
   lookup fs_generated (destFilepath [''tpl''] [''out''] [''tpl'', ''hello.txt'']) =
     Some (File ''Hello World'')"
proof -
  let ?f = "[''tpl'', ''hello.txt'']"
  have g: "generate test_env ''/tpl'' [''tpl''] [''out''] world defaults fs_templates =
     Inr (written_paths, fs_generated)"
    by code_simp
  have o: "overwrite defaults" by code_simp
  have a: "\<not> prefix [''tpl''] [''out'']" and b: "\<not> prefix [''out''] [''tpl'']"
    by simp_all
  then have cl: "\<forall>g\<in>set (go ''/tpl'' [''tpl''] tpl_tree).
      \<not> prefix [''tpl''] (destFilepath [''tpl''] [''out''] g)"
    by (simp add: apart_dest)
  have n: "lookup fs_templates [''tpl''] = Some tpl_tree" by code_simp
  have f: "?f \<in> set (go ''/tpl'' [''tpl''] tpl_tree)" by code_simp
  have nb: "\<not> isBinaryPath test_env ?f" by code_simp
  have rd: "readFile fs_templates ?f = Inr ''Hello {{name}}''" by code_simp
  have hm: "has_marker ''Hello {{name}}''" by code_simp
  have r: "render test_env ''Hello {{name}}'' world = Inr ''Hello World''" by code_simp
  from generate_renders [where E = test_env and source = "[''tpl'']" and dest = "[''out'']"
      and data = world and opts = defaults and fs = fs_templates and written = written_paths
      and fs' = fs_generated and n = tpl_tree and f = ?f and str = "''Hello {{name}}''"]
    g o a n cl f nb rd hm r
  have "lookup fs_generated (destFilepath [''tpl''] [''out''] ?f) = Some (File ''Hello World'')"
    by blast
  with g o a b n f nb rd hm r show ?thesis by simp
qed

text \<open>
  C5, as the spec states it: a file that is not binary and whose content has no delimiter
  pair is written to its destination path byte for byte.  The program reads the file as
  UTF-8 text and writes the text: bytes that are not well-formed UTF-8 come out as the
  replacement character.  A file in Latin-1 holding \<^verbatim>\<open>caf\<close> and the byte E9 is written as
  \<^verbatim>\<open>caf\<close> and the bytes EF BF BD.
\<close>

theorem generate_copies_counterexample:
  "lookup fs_latin1 [''tpl'', ''cafe.txt''] = Some (File [CHR ''c'', CHR ''a'', CHR ''f'', CHR 0xE9]) \<and>
   \<not> isBinaryPath test_env [''tpl'', ''cafe.txt''] \<and>
   \<not> has_marker [CHR ''c'', CHR ''a'', CHR ''f'', CHR 0xE9] \<and>
   generate test_env ''/tpl'' [''tpl''] [''out''] world defaults fs_latin1 =
     Inr ([[''out'', ''cafe.txt'']],
          Dir [(''tpl'', Dir [(''cafe.txt'', File [CHR ''c'', CHR ''a'', CHR ''f'', CHR 0xE9])]),
               (''out'', Dir [(''cafe.txt'',
                  File [CHR ''c'', CHR ''a'', CHR ''f'', CHR 0xEF, CHR 0xBF, CHR 0xBD])])])"
  by code_simp

text \<open>
  C5, amended: a file that is not binary and whose text has no marker is written to its
  destination path with its text, that is, with its content decoded as UTF-8 and encoded
  again.  The bytes written are the bytes of the source exactly when these are well-formed
  UTF-8.  When they are not, the bytes written are well-formed UTF-8 all the same, differ
  from the source, and hold the replacement character U+FFFD, the bytes EF BF BD.  This
  holds of every job that writes, and of a call that resolved under the default
  \<^verbatim>\<open>overwrite: true\<close> and wrote nothing into its source tree.
\<close>

theorem generate_copies:
  "(well_formed c \<longleftrightarrow> utf8 c = c) \<and> well_formed (utf8 c) \<and>
   (\<not> well_formed c \<longrightarrow> sublist replacement (utf8 c)) \<and>
   (job E source dest data opts f fs = Inr (Some p, fs1) \<longrightarrow>
    lookup fs f = Some (File c) \<longrightarrow> \<not> has_marker (utf8 c) \<longrightarrow>
      p = destFilepath source dest f \<and> lookup fs1 p = Some (File (utf8 c)) \<and>
      (lookup fs1 p = Some (File c) \<longleftrightarrow> well_formed c)) \<and>
   (generate E spelling source dest data opts fs = Inr (written, fs') \<longrightarrow> overwrite opts \<longrightarrow>
    \<not> prefix source dest \<longrightarrow> lookup fs source = Some n \<longrightarrow>
    (\<forall>g\<in>set (go spelling source n). \<not> prefix source (destFilepath source dest g)) \<longrightarrow>
    f \<in> set (go spelling source n) \<longrightarrow> \<not> isBinaryPath E f \<longrightarrow>
    lookup fs f = Some (File c) \<longrightarrow> \<not> has_marker (utf8 c) \<longrightarrow>
      lookup fs' (destFilepath source dest f) = Some (File (utf8 c)) \<and>
      destFilepath source dest f \<in> set written \<and>
      (lookup fs' (destFilepath source dest f) = Some (File c) \<longleftrightarrow> well_formed c))"
proof (intro conjI impI)
  show iff: "well_formed c \<longleftrightarrow> utf8 c = c" by (simp add: utf8_id_iff)
  show "well_formed (utf8 c)" by (rule well_formed_utf8)
  {
    assume "\<not> well_formed c"
    with utf8_replaces [of c] show "sublist replacement (utf8 c)" by simp
  }
  {
    assume j: "job E source dest data opts f fs = Inr (Some p, fs1)"
      and c: "lookup fs f = Some (File c)" and m: "\<not> has_marker (utf8 c)"
    from job_written [OF j] readFile_File [OF c] m
    show "p = destFilepath source dest f" and l: "lookup fs1 p = Some (File (utf8 c))"
      by (auto simp: content_def)
    from l iff show "lookup fs1 p = Some (File c) \<longleftrightarrow> well_formed c" by auto
  }
  {
    assume "generate E spelling source dest data opts fs = Inr (written, fs')"
      and "overwrite opts"
      and "\<not> prefix source dest" and "lookup fs source = Some n"
      and "\<forall>g\<in>set (go spelling source n). \<not> prefix source (destFilepath source dest g)"
      and "f \<in> set (go spelling source n)" and "\<not> isBinaryPath E f"
      and c: "lookup fs f = Some (File c)" and m: "\<not> has_marker (utf8 c)"
    from generate_written [OF this(1-7) readFile_File [OF c]] m
    show l: "lookup fs' (destFilepath source dest f) = Some (File (utf8 c))"
      and "destFilepath source dest f \<in> set written"
      by (auto simp: content_def)
    from l iff
    show "lookup fs' (destFilepath source dest f) = Some (File c) \<longleftrightarrow> well_formed c"
      by auto
  }
qed

text \<open>
  C5 on a file in UTF-8 with characters of one, two, three and four bytes, which is copied
  byte for byte, and on the file in Latin-1, which is not.
\<close>

theorem generate_copies_witness:
  "generate test_env ''/tpl'' [''tpl''] [''out''] world defaults fs_menu =
     Inr ([[''out'', ''menu.txt'']], fs_menu_copied) \<and>
   job test_env [''tpl''] [''out''] world defaults [''tpl'', ''menu.txt''] fs_menu =
     Inr (Some [''out'', ''menu.txt''], fs_menu_copied) \<and>
   overwrite defaults \<and> \<not> prefix [''tpl''] [''out''] \<and> \<not> prefix [''out''] [''tpl''] \<and>
   lookup fs_menu [''tpl''] = Some (Dir [(''menu.txt'', File menu)]) \<and>
   [''tpl'', ''menu.txt''] \<in> set (go ''/tpl'' [''tpl''] (Dir [(''menu.txt'', File menu)])) \<and>
   \<not> isBinaryPath test_env [''tpl'', ''menu.txt''] \<and>
   lookup fs_menu [''tpl'', ''menu.txt''] = Some (File menu) \<and>
   \<not> has_marker (utf8 menu) \<and> utf8 menu = menu \<and> well_formed menu \<and>
   lookup fs_menu_copied (destFilepath [''tpl''] [''out''] [''tpl'', ''menu.txt'']) =
     Some (File menu) \<and>
   destFilepath [''tpl''] [''out''] [''tpl'', ''menu.txt''] \<in> set [[''out'', ''menu.txt'']] \<and>
   lookup fs_latin1 [''tpl'', ''cafe.txt''] = Some (File (''caf'' @ [CHR 0xE9])) \<and>
   \<not> has_marker (utf8 (''caf'' @ [CHR 0xE9])) \<and>
   utf8 (''caf'' @ [CHR 0xE9]) = ''caf'' @ replacement \<and>
   \<not> well_formed (''caf'' @ [CHR 0xE9]) \<and>
   sublist replacement (utf8 (''caf'' @ [CHR 0xE9])) \<and>
   job test_env [''tpl''] [''out''] world defaults [''tpl'', ''cafe.txt''] fs_latin1 =
     Inr (Some [''out'', ''cafe.txt''],
          Dir [(''tpl'', Dir [(''cafe.txt'', File (''caf'' @ [CHR 0xE9]))]),
               (''out'', Dir [(''cafe.txt'', File (''caf'' @ replacement))])]) \<and>
   lookup (Dir [(''tpl'', Dir [(''cafe.txt'', File (''caf'' @ [CHR 0xE9]))]),
                (''out'', Dir [(''cafe.txt'', File (''caf'' @ replacement))])])
     [''out'', ''cafe.txt''] \<noteq> Some (File (''caf'' @ [CHR 0xE9]))"
proof -
  let ?f = "[''tpl'', ''menu.txt'']"
  let ?n = "Dir [(''menu.txt'', File menu)]"
  let ?g = "[''tpl'', ''cafe.txt'']"
  let ?latin1 = "''caf'' @ [CHR 0xE9]"
  let ?out = "Dir [(''tpl'', Dir [(''cafe.txt'', File ?latin1)]),
                   (''out'', Dir [(''cafe.txt'', File (''caf'' @ replacement))])]"
  note c5 = generate_copies [where E = test_env and source = "[''tpl'']" and dest = "[''out'']"
      and data = world and opts = defaults]
  have g: "generate test_env ''/tpl'' [''tpl''] [''out''] world defaults fs_menu =
      Inr ([[''out'', ''menu.txt'']], fs_menu_copied)"
    by code_simp
  have j: "job test_env [''tpl''] [''out''] world defaults ?f fs_menu =
      Inr (Some [''out'', ''menu.txt''], fs_menu_copied)"
    by code_simp
  have o: "overwrite defaults" by code_simp
  have a: "\<not> prefix [''tpl''] [''out'']" and b: "\<not> prefix [''out''] [''tpl'']"
    by simp_all
  then have cl: "\<forall>g\<in>set (go ''/tpl'' [''tpl''] ?n).
      \<not> prefix [''tpl''] (destFilepath [''tpl''] [''out''] g)"
    by (simp add: apart_dest)
  have n: "lookup fs_menu [''tpl''] = Some ?n" by code_simp
  have f: "?f \<in> set (go ''/tpl'' [''tpl''] ?n)" by code_simp
  have nb: "\<not> isBinaryPath test_env ?f" by code_simp
  have c: "lookup fs_menu ?f = Some (File menu)" by code_simp
  have hm: "\<not> has_marker (utf8 menu)" by code_simp
  have u: "utf8 menu = menu" by code_simp
  with c5 [where c = menu] have wf: "well_formed menu" by blast
  from c5 [where c = menu and fs = fs_menu and written = "[[''out'', ''menu.txt'']]"
      and fs' = fs_menu_copied and n = ?n and f = ?f and spelling = "''/tpl''"]
    g o a n cl f nb c hm wf
  have "lookup fs_menu_copied (destFilepath [''tpl''] [''out''] ?f) = Some (File menu)"
    and "destFilepath [''tpl''] [''out''] ?f \<in> set [[''out'', ''menu.txt'']]"
    by blast+
  moreover
  have c': "lookup fs_latin1 ?g = Some (File ?latin1)" by code_simp
  have hm': "\<not> has_marker (utf8 ?latin1)" by code_simp
  have u': "utf8 ?latin1 = ''caf'' @ replacement" by code_simp
  then have "utf8 ?latin1 \<noteq> ?latin1" by (simp add: replacement_def)
  with c5 [where c = ?latin1] have nwf: "\<not> well_formed ?latin1" by blast
  with c5 [where c = ?latin1] have sl: "sublist replacement (utf8 ?latin1)" by blast
  have j': "job test_env [''tpl''] [''out''] world defaults ?g fs_latin1 =
      Inr (Some [''out'', ''cafe.txt''], ?out)"
    by code_simp
  from c5 [where c = ?latin1 and fs = fs_latin1 and f = ?g and p = "[''out'', ''cafe.txt'']"
      and ?fs1.0 = ?out] j' c' hm' nwf
  have "lookup ?out [''out'', ''cafe.txt''] \<noteq> Some (File ?latin1)" by blast
  ultimately show ?thesis using g j o a b n f nb c hm u wf c' hm' u' nwf sl j' by simp
qed

text \<open>
  C6: a file below a directory named \<^verbatim>\<open>.git\<close> that lies in the source tree, at any depth
  below the root of the walk, is not in the queue of the walk; its destination path is
  not among the paths written, and it holds the same file after the call as before it, or
  none.  (The walk leaves every directory below the root whose name ends with \<^verbatim>\<open>.git\<close>, as
  \<open>go_pruned\<close> says; for the root itself the filter reads the string that was passed.)
\<close>

theorem walk_prunes_git:
  assumes "strict_prefix source q" and "strict_prefix q f" and "last q = ''.git''"
  shows "(walk E fs spelling source = Inr queue \<longrightarrow> f \<notin> set queue) \<and>
         (generate E spelling source dest data opts fs = Inr (written, fs') \<longrightarrow>
            destFilepath source dest f \<notin> set written \<and>
            (\<forall>c. lookup fs' (destFilepath source dest f) = Some (File c) \<longleftrightarrow>
                 lookup fs (destFilepath source dest f) = Some (File c)))"
proof -
  from assms(1,2) have below: "prefix source f"
    by (auto simp: strict_prefix_def prefix_def)
  have skip: "f \<notin> set (go spelling source n)" for n
  proof
    assume "f \<in> set (go spelling source n)"
    from go_filter [OF this assms(1,2)] assms(3) show False by simp
  qed
  then have "walk E fs spelling source = Inr queue \<longrightarrow> f \<notin> set queue"
    by (auto simp: walk_def split: sum.splits)
  moreover
  from skip have "f \<notin> set (filter (\<lambda>p. \<not> isBinaryPath E p) (go spelling source n))" for n
    by simp
  then have "generate E spelling source dest data opts fs = Inr (written, fs') \<longrightarrow>
      destFilepath source dest f \<notin> set written \<and>
      (\<forall>c. lookup fs' (destFilepath source dest f) = Some (File c) \<longleftrightarrow>
           lookup fs (destFilepath source dest f) = Some (File c))"
    using generate_untouched [where E = E and spelling = spelling and source = source
        and dest = dest and data = data and opts = opts and fs = fs and written = written
        and fs' = fs' and f = f] below
    by blast
  ultimately show ?thesis by blast
qed

text \<open>
  C6 on the template repository: the metadata one level down, \<^verbatim>\<open>.git/HEAD\<close>, and two
  levels down, \<^verbatim>\<open>lib/.git/config\<close>.
\<close>

theorem walk_prunes_git_witness:
  "strict_prefix [''tpl''] [''tpl'', ''lib'', ''.git''] \<and>
   strict_prefix [''tpl'', ''lib'', ''.git''] [''tpl'', ''lib'', ''.git'', ''config''] \<and>
   last [''tpl'', ''lib'', ''.git''] = ''.git'' \<and>
   lookup fs_templates [''tpl'', ''lib'', ''.git'', ''config''] = Some (File ''core'') \<and>
   strict_prefix [''tpl''] [''tpl'', ''.git''] \<and>
   strict_prefix [''tpl'', ''.git''] [''tpl'', ''.git'', ''HEAD''] \<and>
   last [''tpl'', ''.git''] = ''.git'' \<and>
   lookup fs_templates [''tpl'', ''.git'', ''HEAD''] = Some (File ''ref'') \<and>
   walk test_env fs_templates ''/tpl'' [''tpl''] =
     Inr [[''tpl'', ''hello.txt''], [''tpl'', ''plain.txt''], [''tpl'', ''lib'', ''empty.txt'']] \<and>
   [''tpl'', ''lib'', ''.git'', ''config''] \<notin>
     set [[''tpl'', ''hello.txt''], [''tpl'', ''plain.txt''], [''tpl'', ''lib'', ''empty.txt'']] \<and>
   [''tpl'', ''.git'', ''HEAD''] \<notin>
     set [[''tpl'', ''hello.txt''], [''tpl'', ''plain.txt''], [''tpl'', ''lib'', ''empty.txt'']] \<and>
   generate test_env ''/tpl'' [''tpl''] [''out''] world defaults fs_templates =
     Inr (written_paths, fs_generated) \<and>
   destFilepath [''tpl''] [''out''] [''tpl'', ''lib'', ''.git'', ''config''] \<notin> set written_paths \<and>
   lookup fs_generated (destFilepath [''tpl''] [''out''] [''tpl'', ''lib'', ''.git'', ''config'']) =
     None \<and>
   destFilepath [''tpl''] [''out''] [''tpl'', ''.git'', ''HEAD''] \<notin> set written_paths \<and>
   lookup fs_generated (destFilepath [''tpl''] [''out''] [''tpl'', ''.git'', ''HEAD'']) = None"
proof -
  let ?q = "[''tpl'', ''lib'', ''.git'']"
  let ?f = "[''tpl'', ''lib'', ''.git'', ''config'']"
  let ?r = "[''tpl'', ''.git'']"
  let ?h = "[''tpl'', ''.git'', ''HEAD'']"
  let ?queue = "[[''tpl'', ''hello.txt''], [''tpl'', ''plain.txt''], [''tpl'', ''lib'', ''empty.txt'']]"
  have p: "strict_prefix [''tpl''] ?q" by (simp add: strict_prefix_def)
  have sp: "strict_prefix ?q ?f" by (simp add: strict_prefix_def)
  have la: "last ?q = ''.git''" by simp
  have l: "lookup fs_templates ?f = Some (File ''core'')" by code_simp
  have p': "strict_prefix [''tpl''] ?r" by (simp add: strict_prefix_def)
  have sp': "strict_prefix ?r ?h" by (simp add: strict_prefix_def)
  have la': "last ?r = ''.git''" by simp
  have l': "lookup fs_templates ?h = Some (File ''ref'')" by code_simp
  have w: "walk test_env fs_templates ''/tpl'' [''tpl''] = Inr ?queue" by code_simp
  have g: "generate test_env ''/tpl'' [''tpl''] [''out''] world defaults fs_templates =
      Inr (written_paths, fs_generated)"
    by code_simp
  from walk_prunes_git [OF p sp la, where E = test_env and fs = fs_templates
      and spelling = "''/tpl''" and queue = ?queue and dest = "[''out'']" and data = world
      and opts = defaults and written = written_paths and fs' = fs_generated] w g
  have "?f \<notin> set ?queue"
    and "destFilepath [''tpl''] [''out''] ?f \<notin> set written_paths"
    by blast+
  moreover
  from walk_prunes_git [OF p' sp' la', where E = test_env and fs = fs_templates
      and spelling = "''/tpl''" and queue = ?queue and dest = "[''out'']" and data = world
      and opts = defaults and written = written_paths and fs' = fs_generated] w g
  have "?h \<notin> set ?queue"
    and "destFilepath [''tpl''] [''out''] ?h \<notin> set written_paths"
    by blast+
  moreover have "lookup fs_generated (destFilepath [''tpl''] [''out''] ?f) = None" by code_simp
  moreover have "lookup fs_generated (destFilepath [''tpl''] [''out''] ?h) = None" by code_simp
  ultimately show ?thesis using p sp la l p' sp' la' l' w g by simp
qed

text \<open>
  C7: a file that the classifier calls binary is not in the queue of the walk, whatever
  its text; its destination path is not among the paths written, and it holds the same
  file after the call as before it, or none.  Leaving it out is no error: on a source tree
  of binary files only, the call resolves with the empty list.
\<close>

theorem generate_skips_binary:
  assumes "isBinaryPath E f" and "prefix source f"
  shows "(walk E fs spelling source = Inr queue \<longrightarrow> f \<notin> set queue) \<and>
         (generate E spelling source dest data opts fs = Inr (written, fs') \<longrightarrow>
            destFilepath source dest f \<notin> set written \<and>
            (\<forall>c. lookup fs' (destFilepath source dest f) = Some (File c) \<longleftrightarrow>
                 lookup fs (destFilepath source dest f) = Some (File c))) \<and>
         (mkdirp fs dest = Inr fs1 \<longrightarrow> lookup fs1 source = Some n \<longrightarrow>
            (\<forall>p\<in>set (go spelling source n). isBinaryPath E p) \<longrightarrow>
            generate E spelling source dest data opts fs = Inr ([], fs1))"
proof -
  from assms(1) have "walk E fs spelling source = Inr queue \<longrightarrow> f \<notin> set queue"
    by (auto simp: walk_def split: sum.splits)
  moreover from assms(1) have "f \<notin> set (filter (\<lambda>p. \<not> isBinaryPath E p) (go spelling source n))" for n
    by simp
  then have "generate E spelling source dest data opts fs = Inr (written, fs') \<longrightarrow>
      destFilepath source dest f \<notin> set written \<and>
      (\<forall>c. lookup fs' (destFilepath source dest f) = Some (File c) \<longleftrightarrow>
           lookup fs (destFilepath source dest f) = Some (File c))"
    using generate_untouched [where E = E and spelling = spelling and source = source
        and dest = dest and data = data and opts = opts and fs = fs and written = written
        and fs' = fs' and f = f] assms(2)
    by blast
  moreover have "mkdirp fs dest = Inr fs1 \<longrightarrow> lookup fs1 source = Some n \<longrightarrow>
      (\<forall>p\<in>set (go spelling source n). isBinaryPath E p) \<longrightarrow>
      generate E spelling source dest data opts fs = Inr ([], fs1)"
  proof (intro impI)
    assume "mkdirp fs dest = Inr fs1" and "lookup fs1 source = Some n"
      and "\<forall>p\<in>set (go spelling source n). isBinaryPath E p"
    moreover from this(3) have "filter (\<lambda>p. \<not> isBinaryPath E p) (go spelling source n) = []"
      by (simp add: filter_empty_conv)
    ultimately show "generate E spelling source dest data opts fs = Inr ([], fs1)"
      by (simp add: generate_def walk_def stat_def)
  qed
  ultimately show ?thesis by blast
qed

text \<open>C7 on the image of the template repository, whose text is a marker, and on a tree of images.\<close>

theorem generate_skips_binary_witness:
  "isBinaryPath test_env [''tpl'', ''logo.png''] \<and> prefix [''tpl''] [''tpl'', ''logo.png''] \<and>
   readFile fs_templates [''tpl'', ''logo.png''] = Inr ''{{name}}'' \<and> has_marker ''{{name}}'' \<and>
   generate test_env ''/tpl'' [''tpl''] [''out''] world defaults fs_templates =
     Inr (written_paths, fs_generated) \<and>
   destFilepath [''tpl''] [''out''] [''tpl'', ''logo.png''] \<notin> set written_paths \<and>
   lookup fs_generated (destFilepath [''tpl''] [''out''] [''tpl'', ''logo.png'']) = None \<and>
   mkdirp fs_images [''out''] = Inr (Dir [(''tpl'', png_tree), (''out'', Dir [])]) \<and>
   lookup (Dir [(''tpl'', png_tree), (''out'', Dir [])]) [''tpl''] = Some png_tree \<and>
   list_all (isBinaryPath test_env) (go ''/tpl'' [''tpl''] png_tree) \<and>
   generate test_env ''/tpl'' [''tpl''] [''out''] world defaults fs_images =
     Inr ([], Dir [(''tpl'', png_tree), (''out'', Dir [])])"
proof -
  let ?f = "[''tpl'', ''logo.png'']"
  let ?fs1 = "Dir [(''tpl'', png_tree), (''out'', Dir [])]"
  have i: "isBinaryPath test_env ?f" by code_simp
  have p: "prefix [''tpl''] ?f" by simp
  have r: "readFile fs_templates ?f = Inr ''{{name}}''" by code_simp
  have h: "has_marker ''{{name}}''" by code_simp
  have g: "generate test_env ''/tpl'' [''tpl''] [''out''] world defaults fs_templates =
      Inr (written_paths, fs_generated)"
    by code_simp
  have m: "mkdirp fs_images [''out''] = Inr ?fs1" by code_simp
  have n: "lookup ?fs1 [''tpl''] = Some png_tree" by code_simp
  have la: "list_all (isBinaryPath test_env) (go ''/tpl'' [''tpl''] png_tree)" by code_simp
  then have a: "\<forall>p\<in>set (go ''/tpl'' [''tpl''] png_tree). isBinaryPath test_env p"
    by (simp add: list_all_iff)
  from generate_skips_binary [OF i p, where fs = fs_templates and dest = "[''out'']"
      and data = world and opts = defaults and written = written_paths and fs' = fs_generated]
    generate_skips_binary [OF i p, where fs = fs_images and dest = "[''out'']"
      and data = world and opts = defaults and ?fs1.0 = ?fs1 and n = png_tree] g m n a
  have "destFilepath [''tpl''] [''out''] ?f \<notin> set written_paths"
    and "generate test_env ''/tpl'' [''tpl''] [''out''] world defaults fs_images = Inr ([], ?fs1)"
    by blast+
  moreover have "lookup fs_generated (destFilepath [''tpl''] [''out''] ?f) = None" by code_simp
  ultimately show ?thesis using i p r h g m n la by simp
qed

text \<open>
  C10: \<^verbatim>\<open>generate\<close> creates the destination root with every ancestor that is missing, and
  does so before it walks the source.  The creation succeeds exactly when no file lies on
  the way to the root, however many of its ancestors are missing.  After it, the root and
  all its ancestors are directories, the root is empty if it was not there before, and
  every path off the way to the root holds what it held.  The walk runs on the file system
  so reached: when its queue is empty the call resolves with the empty list on that file
  system, and so it does when the source is the root that was missing before the call.
  After every call that resolved, the root and all its ancestors are directories.  When
  the creation fails, the call rejects with its error.
\<close>

theorem generate_creates_dest:
  "(generate E spelling source dest data opts fs = Inr (written, fs') \<longrightarrow>
      (\<forall>q. prefix q dest \<longrightarrow> (\<exists>es. lookup fs' q = Some (Dir es)))) \<and>
   ((\<exists>fs1. mkdirp fs dest = Inr fs1) \<longleftrightarrow>
      (\<forall>q c. prefix q dest \<longrightarrow> lookup fs q \<noteq> Some (File c))) \<and>
   (mkdirp fs dest = Inr fs1 \<longrightarrow>
      (\<forall>q. prefix q dest \<longrightarrow> (\<exists>es. lookup fs1 q = Some (Dir es))) \<and>
      (\<forall>q. \<not> prefix q dest \<longrightarrow> lookup fs1 q = lookup fs q) \<and>
      (lookup fs dest = None \<longrightarrow> lookup fs1 dest = Some (Dir [])) \<and>
      (walk E fs1 spelling source = Inr [] \<longrightarrow>
         generate E spelling source dest data opts fs = Inr ([], fs1)) \<and>
      (lookup fs dest = None \<longrightarrow>
         generate E spelling dest dest data opts fs = Inr ([], fs1))) \<and>
   (mkdirp fs dest = Inl e \<longrightarrow>
      generate E spelling source dest data opts fs = Inl (Sys e))"
proof (intro conjI impI allI)
  fix q
  assume gen: "generate E spelling source dest data opts fs = Inr (written, fs')"
    and q: "prefix q dest"
  from gen obtain fs1 n rs where m: "mkdirp fs dest = Inr fs1"
    and js: "jobs E source dest data opts
               (filter (\<lambda>p. \<not> isBinaryPath E p) (go spelling source n)) fs1 = Inr (rs, fs')"
    by (rule generate_cases)
  from m q obtain es where "lookup fs1 q = Some (Dir es)"
    by (blast dest: mkdirp_ancestors)
  with js show "\<exists>es. lookup fs' q = Some (Dir es)" by (rule jobs_dir)
next
  show "(\<exists>fs1. mkdirp fs dest = Inr fs1) \<longleftrightarrow>
      (\<forall>q c. prefix q dest \<longrightarrow> lookup fs q \<noteq> Some (File c))"
    using mkdirp_blocked mkdirp_succeeds by blast
next
  fix q
  assume "mkdirp fs dest = Inr fs1" and "prefix q dest"
  then show "\<exists>es. lookup fs1 q = Some (Dir es)" by (rule mkdirp_ancestors)
next
  fix q
  assume "mkdirp fs dest = Inr fs1" and "\<not> prefix q dest"
  then show "lookup fs1 q = lookup fs q" by (rule mkdirp_frame)
next
  assume "mkdirp fs dest = Inr fs1" and "lookup fs dest = None"
  then show "lookup fs1 dest = Some (Dir [])" by (simp add: mkdirp_new)
next
  assume "mkdirp fs dest = Inr fs1" and "walk E fs1 spelling source = Inr []"
  then show "generate E spelling source dest data opts fs = Inr ([], fs1)"
    by (simp add: generate_def)
next
  assume m: "mkdirp fs dest = Inr fs1" and "lookup fs dest = None"
  then have "lookup fs1 dest = Some (Dir [])" by (simp add: mkdirp_new)
  then have "walk E fs1 spelling dest = Inr []"
    by (simp add: walk_def stat_def readdir_def)
  with m show "generate E spelling dest dest data opts fs = Inr ([], fs1)"
    by (simp add: generate_def)
next
  assume "mkdirp fs dest = Inl e"
  then show "generate E spelling source dest data opts fs = Inl (Sys e)"
    by (simp add: generate_def)
qed

text \<open>
  C10 on a destination three levels deep, \<^verbatim>\<open>/out/a/b\<close>, of which nothing exists: from an
  empty source tree, and from the destination itself as the source; and on a destination
  below a file, where the call rejects.
\<close>

theorem generate_creates_dest_witness:
  "list_all (\<lambda>q. lookup fs_empty_source q = None)
     [[''out''], [''out'', ''a''], [''out'', ''a'', ''b'']] \<and>
   (\<exists>fs1. mkdirp fs_empty_source [''out'', ''a'', ''b''] = Inr fs1) \<and>
   mkdirp fs_empty_source [''out'', ''a'', ''b''] = Inr fs_deep \<and>
   walk test_env fs_deep ''/tpl'' [''tpl''] = Inr [] \<and>
   generate test_env ''/tpl'' [''tpl''] [''out'', ''a'', ''b''] world defaults fs_empty_source =
     Inr ([], fs_deep) \<and>
   generate test_env ''/out/a/b'' [''out'', ''a'', ''b''] [''out'', ''a'', ''b''] world defaults
     fs_empty_source = Inr ([], fs_deep) \<and>
   (\<exists>es. lookup fs_deep [''out''] = Some (Dir es)) \<and>
   (\<exists>es. lookup fs_deep [''out'', ''a''] = Some (Dir es)) \<and>
   lookup fs_deep [''out'', ''a'', ''b''] = Some (Dir []) \<and>
   lookup fs_deep [''tpl''] = lookup fs_empty_source [''tpl''] \<and>
   lookup fs_templates [''tpl'', ''plain.txt''] = Some (File ''plain text'') \<and>
   mkdirp fs_templates [''tpl'', ''plain.txt'', ''out''] = Inl ENOTDIR \<and>
   generate test_env ''/tpl'' [''tpl''] [''tpl'', ''plain.txt'', ''out''] world defaults
     fs_templates = Inl (Sys ENOTDIR)"
proof -
  let ?dest = "[''out'', ''a'', ''b'']"
  let ?blocked = "[''tpl'', ''plain.txt'', ''out'']"
  note c10 = generate_creates_dest [where E = test_env and data = world and opts = defaults]
  have none: "list_all (\<lambda>q. lookup fs_empty_source q = None)
      [[''out''], [''out'', ''a''], ?dest]"
    by code_simp
  then have nd: "lookup fs_empty_source ?dest = None" by simp
  have "\<forall>q c. prefix q ?dest \<longrightarrow> lookup fs_empty_source q \<noteq> Some (File c)"
  proof (intro allI impI)
    fix q c
    assume "prefix q ?dest"
    then have "q \<in> set (prefixes ?dest)" by (simp only: in_set_prefixes)
    then have "q = [] \<or> q = [''out''] \<or> q = [''out'', ''a''] \<or> q = ?dest" by auto
    with none show "lookup fs_empty_source q \<noteq> Some (File c)"
      by (auto simp: fs_empty_source_def)
  qed
  with c10 [where fs = fs_empty_source and dest = ?dest]
  have ex: "\<exists>fs1. mkdirp fs_empty_source ?dest = Inr fs1" by blast
  have m: "mkdirp fs_empty_source ?dest = Inr fs_deep" by code_simp
  have w: "walk test_env fs_deep ''/tpl'' [''tpl''] = Inr []" by code_simp
  have np: "\<not> prefix [''tpl''] ?dest" by simp
  from c10 [where fs = fs_empty_source and dest = ?dest and ?fs1.0 = fs_deep
      and spelling = "''/tpl''" and source = "[''tpl'']"] m w nd np
  have "generate test_env ''/tpl'' [''tpl''] ?dest world defaults fs_empty_source =
      Inr ([], fs_deep)"
    and "\<exists>es. lookup fs_deep [''out''] = Some (Dir es)"
    and "\<exists>es. lookup fs_deep [''out'', ''a''] = Some (Dir es)"
    and "lookup fs_deep ?dest = Some (Dir [])"
    and "lookup fs_deep [''tpl''] = lookup fs_empty_source [''tpl'']"
    by (simp_all add: prefix_Cons)
  moreover
  from c10 [where fs = fs_empty_source and dest = ?dest and ?fs1.0 = fs_deep
      and spelling = "''/out/a/b''"] m nd
  have "generate test_env ''/out/a/b'' ?dest ?dest world defaults fs_empty_source =
      Inr ([], fs_deep)"
    by blast
  moreover
  have f: "lookup fs_templates [''tpl'', ''plain.txt''] = Some (File ''plain text'')"
    by code_simp
  have b: "mkdirp fs_templates ?blocked = Inl ENOTDIR" by code_simp
  from c10 [where fs = fs_templates and dest = ?blocked and e = ENOTDIR
      and spelling = "''/tpl''" and source = "[''tpl'']"] b
  have "generate test_env ''/tpl'' [''tpl''] ?blocked world defaults fs_templates =
      Inl (Sys ENOTDIR)"
    by blast
  ultimately show ?thesis using none ex m w f b by simp
qed

section \<open>The claims about the cache directory and the marker test\<close>

text \<open>
  C8: the cache directory of a locator is a function of the locator and of the cache root
  alone: the slug of the locator, joined under \<^verbatim>\<open>.egad-templates\<close> in the cache root.  The
  slug holds lowercase letters, digits and hyphens only, so that it is one path component,
  and the locator \<^verbatim>\<open>My Repo!\<close> has the directory name \<^verbatim>\<open>my-repo\<close> under every cache root.
\<close>

theorem destPath_kebab_slug:
  "destPath E url = path_join (xdgCachedir E) [''.egad-templates'', kebabCase url] \<and>
   set (kebabCase url) \<subseteq> set (lowers @ digits @ ''-'') \<and>
   (kebabCase url \<noteq> [] \<longrightarrow>
      destPath E url = xdgCachedir E @ [''.egad-templates'', kebabCase url]) \<and>
   kebabCase ''My Repo!'' = ''my-repo'' \<and>
   destPath E ''My Repo!'' = xdgCachedir E @ [''.egad-templates'', ''my-repo'']"
proof -
  have j: "destPath E u = path_join (xdgCachedir E) [''.egad-templates'', kebabCase u]" for u
    by (simp add: destPath_def cachedir_def)
  have s: "kebabCase u \<noteq> [] \<Longrightarrow>
      destPath E u = xdgCachedir E @ [''.egad-templates'', kebabCase u]" for u
    unfolding j using kebabCase_chars by (rule path_join_slug)
  have m: "kebabCase ''My Repo!'' = ''my-repo''"
    by code_simp
  from s [of "''My Repo!''"] have "destPath E ''My Repo!'' = xdgCachedir E @ [''.egad-templates'', ''my-repo'']"
    unfolding m by simp
  with j s m kebabCase_chars show ?thesis by blast
qed

text \<open>C8 on the address of a repository.\<close>

theorem destPath_kebab_slug_witness:
  "kebabCase ''https://github.com/boneskull/egad'' \<noteq> [] \<and>
   destPath test_env ''https://github.com/boneskull/egad'' =
     [''home'', ''.cache'', ''.egad-templates'', ''https-github-com-boneskull-egad'']"
proof -
  have k: "kebabCase ''https://github.com/boneskull/egad'' = ''https-github-com-boneskull-egad''"
    by code_simp
  have x: "xdgCachedir test_env = [''home'', ''.cache'']"
    by (simp add: test_env_def)
  have n: "kebabCase ''https://github.com/boneskull/egad'' \<noteq> []"
    unfolding k by simp
  with destPath_kebab_slug [of test_env "''https://github.com/boneskull/egad''"]
  have "destPath test_env ''https://github.com/boneskull/egad'' =
      xdgCachedir test_env @ [''.egad-templates'', kebabCase ''https://github.com/boneskull/egad'']"
    by blast
  with n show ?thesis unfolding k x by simp
qed

text \<open>
  C9: the marker test asks for at least one character that is no brace between the opening
  and the closing pair of braces.  A text whose only braces are an empty pair \<^verbatim>\<open>{{}}\<close> has
  no marker: the text to write is the text itself, whatever the rendering engine would
  make of it, and \<^verbatim>\<open>generate\<close> writes the file with that text.
\<close>

theorem marker_needs_expression:
  "(has_marker s \<longleftrightarrow>
      (\<exists>pre mid post. s = pre @ ''{{'' @ mid @ ''}}'' @ post \<and> mid \<noteq> [] \<and>
         (\<forall>c\<in>set mid. not_brace c))) \<and>
   ((\<forall>c\<in>set pre. not_brace c) \<and> (\<forall>c\<in>set post. not_brace c) \<longrightarrow>
      \<not> has_marker (pre @ ''{{}}'' @ post) \<and>
      content E data (pre @ ''{{}}'' @ post) = Inr (pre @ ''{{}}'' @ post) \<and>
      (generate E spelling source dest data opts fs = Inr (written, fs') \<longrightarrow> overwrite opts \<longrightarrow>
       \<not> prefix source dest \<longrightarrow> lookup fs source = Some n \<longrightarrow>
       (\<forall>g\<in>set (go spelling source n). \<not> prefix source (destFilepath source dest g)) \<longrightarrow>
       f \<in> set (go spelling source n) \<longrightarrow> \<not> isBinaryPath E f \<longrightarrow>
       readFile fs f = Inr (pre @ ''{{}}'' @ post) \<longrightarrow>
         lookup fs' (destFilepath source dest f) = Some (File (pre @ ''{{}}'' @ post))))"
proof (intro conjI impI)
  show "has_marker s \<longleftrightarrow>
      (\<exists>pre mid post. s = pre @ ''{{'' @ mid @ ''}}'' @ post \<and> mid \<noteq> [] \<and>
         (\<forall>c\<in>set mid. not_brace c))"
    by (rule has_marker_iff)
next
  assume "(\<forall>c\<in>set pre. not_brace c) \<and> (\<forall>c\<in>set post. not_brace c)"
  then show none: "\<not> has_marker (pre @ ''{{}}'' @ post)"
    using no_marker_empty_expression [of pre post] by blast
  then show same: "content E data (pre @ ''{{}}'' @ post) = Inr (pre @ ''{{}}'' @ post)"
    unfolding content_def by (rule if_not_P)
  assume "generate E spelling source dest data opts fs = Inr (written, fs')" and "overwrite opts"
    and "\<not> prefix source dest" and "lookup fs source = Some n"
    and "\<forall>g\<in>set (go spelling source n). \<not> prefix source (destFilepath source dest g)"
    and "f \<in> set (go spelling source n)" and "\<not> isBinaryPath E f"
    and "readFile fs f = Inr (pre @ ''{{}}'' @ post)"
  from generate_written [OF this] same
  show "lookup fs' (destFilepath source dest f) = Some (File (pre @ ''{{}}'' @ post))"
    by simp
qed

text \<open>C9 on the file of the template repository with an empty pair of braces.\<close>

theorem marker_needs_expression_witness:
  "list_all not_brace ''a '' \<and> list_all not_brace '' b'' \<and>
   \<not> has_marker ''a {{}} b'' \<and>
   content test_env world ''a {{}} b'' = Inr ''a {{}} b'' \<and>
   generate test_env ''/tpl'' [''tpl''] [''out''] world defaults fs_templates =
     Inr (written_paths, fs_generated) \<and>
   overwrite defaults \<and> \<not> prefix [''tpl''] [''out''] \<and> \<not> prefix [''out''] [''tpl''] \<and>
   lookup fs_templates [''tpl''] = Some tpl_tree \<and>
   [''tpl'', ''lib'', ''empty.txt''] \<in> set (go ''/tpl'' [''tpl''] tpl_tree) \<and>
   \<not> isBinaryPath test_env [''tpl'', ''lib'', ''empty.txt''] \<and>
   readFile fs_templates [''tpl'', ''lib'', ''empty.txt''] = Inr ''a {{}} b'' \<and>
   lookup fs_generated (destFilepath [''tpl''] [''out''] [''tpl'', ''lib'', ''empty.txt'']) =
     Some (File ''a {{}} b'')"
proof -
  let ?f = "[''tpl'', ''lib'', ''empty.txt'']"
  have l: "list_all not_brace ''a ''" "list_all not_brace '' b''"
    by (simp_all add: not_brace_def)
  then have h: "(\<forall>c\<in>set ''a ''. not_brace c) \<and> (\<forall>c\<in>set '' b''. not_brace c)"
    unfolding list_all_iff by (rule conjI)
  have s: "''a '' @ ''{{}}'' @ '' b'' = ''a {{}} b''" by simp
  have g: "generate test_env ''/tpl'' [''tpl''] [''out''] world defaults fs_templates =
      Inr (written_paths, fs_generated)"
    by code_simp
  have o: "overwrite defaults" by code_simp
  have a: "\<not> prefix [''tpl''] [''out'']" and b: "\<not> prefix [''out''] [''tpl'']"
    by simp_all
  then have cl: "\<forall>g\<in>set (go ''/tpl'' [''tpl''] tpl_tree).
      \<not> prefix [''tpl''] (destFilepath [''tpl''] [''out''] g)"
    by (simp add: apart_dest)
  have n: "lookup fs_templates [''tpl''] = Some tpl_tree" by code_simp
  have f: "?f \<in> set (go ''/tpl'' [''tpl''] tpl_tree)" by code_simp
  have nb: "\<not> isBinaryPath test_env ?f" by code_simp
  have rd: "readFile fs_templates ?f = Inr ''a {{}} b''" by code_simp
  from marker_needs_expression [where pre = "''a ''" and post = "'' b''" and E = test_env
      and data = world and source = "[''tpl'']" and dest = "[''out'']" and opts = defaults
      and fs = fs_templates and written = written_paths and fs' = fs_generated
      and n = tpl_tree and f = ?f] h g o a n cl f nb rd
  have "\<not> has_marker ''a {{}} b''"
    and "content test_env world ''a {{}} b'' = Inr ''a {{}} b''"
    and "lookup fs_generated (destFilepath [''tpl''] [''out''] ?f) = Some (File ''a {{}} b'')"
    unfolding s by blast+
  with l g o a b n f nb rd show ?thesis by simp
qed

end
